theory Spec2Isabelle
  imports Main
begin

section \<open>JavaScript values used by the authentication core\<close>

text \<open>
  A string is the list of its code units, each below 256 (ASCII and the Latin-1 range);
  text with other characters is outside this development. Numbers are integers, with one
  extra value for \<open>NaN\<close>, which \<open>parseInt\<close> returns on a string without digits and which
  then flows through comparisons (always false) and additions (always \<open>NaN\<close>). The
  program computes in doubles, which agree with the integers up to \<open>2^53\<close> in magnitude;
  the theorems about configured numbers assume that range (\<open>safe\<close>). Clock values are
  milliseconds since the epoch, as \<open>Date.now()\<close> gives them.
\<close>

datatype jsnum = NaN | Num int

definition safe :: "int \<Rightarrow> bool" where
  "safe v = (\<bar>v\<bar> \<le> 9007199254740991)"

text \<open>
  \<open>new Date(x).getTime()\<close>: a time value beyond 8.64e15 milliseconds on either side of the
  epoch gives an invalid date, whose time is \<open>NaN\<close>.
\<close>

fun date_of :: "jsnum \<Rightarrow> jsnum" where
  "date_of NaN = NaN"
| "date_of (Num v) = (if \<bar>v\<bar> \<le> 8640000000000000 then Num v else NaN)"

fun num_ge :: "jsnum \<Rightarrow> jsnum \<Rightarrow> bool" where
  "num_ge (Num a) (Num b) = (a \<ge> b)"
| "num_ge _ _ = False"

fun num_gt :: "jsnum \<Rightarrow> jsnum \<Rightarrow> bool" where
  "num_gt (Num a) (Num b) = (a > b)"
| "num_gt _ _ = False"

fun num_add :: "jsnum \<Rightarrow> jsnum \<Rightarrow> jsnum" where
  "num_add (Num a) (Num b) = Num (a + b)"
| "num_add _ _ = NaN"

text \<open>\<open>x || d\<close> on an environment variable: unset and the empty string are both falsy.\<close>

fun or_default :: "string option \<Rightarrow> string \<Rightarrow> string" where
  "or_default None d = d"
| "or_default (Some v) d = (if v = [] then d else v)"

text \<open>\<open>!x\<close> on an optional string: the value when it is truthy.\<close>

fun truthy :: "string option \<Rightarrow> string option" where
  "truthy None = None"
| "truthy (Some v) = (if v = [] then None else Some v)"

definition is_space :: "char \<Rightarrow> bool" where
  "is_space c = (of_char c \<in> {9::nat, 10, 11, 12, 13, 32, 160})"

definition is_line_terminator :: "char \<Rightarrow> bool" where
  "is_line_terminator c = (of_char c \<in> {10::nat, 13})"

definition is_word_char :: "char \<Rightarrow> bool" where
  "is_word_char c = (let n = of_char c :: nat in
     (48 \<le> n \<and> n \<le> 57) \<or> (65 \<le> n \<and> n \<le> 90) \<or> (97 \<le> n \<and> n \<le> 122) \<or> n = 95)"

definition is_digit :: "char \<Rightarrow> bool" where
  "is_digit c = (48 \<le> (of_char c :: nat) \<and> (of_char c :: nat) \<le> 57)"

text \<open>
  \<open>toLowerCase\<close> on one code unit: the letters A to Z, and in the Latin-1 range the
  letters from 192 to 222 except the multiplication sign 215, move up by 32.
\<close>

definition lower_char :: "char \<Rightarrow> char" where
  "lower_char c = (let n = of_char c :: nat in
     if (65 \<le> n \<and> n \<le> 90) \<or> (192 \<le> n \<and> n \<le> 222 \<and> n \<noteq> 215) then char_of (n + 32) else c)"

definition toLowerCase :: "string \<Rightarrow> string" where
  "toLowerCase s = map lower_char s"

definition trim :: "string \<Rightarrow> string" where
  "trim s = rev (dropWhile is_space (rev (dropWhile is_space s)))"

fun starts_with :: "string \<Rightarrow> string \<Rightarrow> bool" where
  "starts_with [] s = True"
| "starts_with (p # ps) [] = False"
| "starts_with (p # ps) (c # cs) = (p = c \<and> starts_with ps cs)"

text \<open>\<open>s.includes(sub)\<close>.\<close>

fun str_includes :: "string \<Rightarrow> string \<Rightarrow> bool" where
  "str_includes [] sub = (sub = [])"
| "str_includes (c # cs) sub = (starts_with sub (c # cs) \<or> str_includes cs sub)"

subsection \<open>\<open>parseInt\<close> without a radix\<close>

text \<open>
  Leading white space is skipped, a sign is read, a \<open>0x\<close> prefix selects radix 16, and the
  longest run of digits is the value; no digit at all gives \<open>NaN\<close>.
\<close>

definition digit_of :: "nat \<Rightarrow> char \<Rightarrow> nat option" where
  "digit_of radix c = (let n = of_char c :: nat;
       v = (if 48 \<le> n \<and> n \<le> 57 then Some (n - 48)
            else if 97 \<le> n \<and> n \<le> 122 then Some (n - 87)
            else if 65 \<le> n \<and> n \<le> 90 then Some (n - 55)
            else None)
     in case v of None \<Rightarrow> None | Some d \<Rightarrow> if d < radix then Some d else None)"

fun digits_value :: "nat \<Rightarrow> string \<Rightarrow> int option \<Rightarrow> int option" where
  "digits_value radix [] acc = acc"
| "digits_value radix (c # cs) acc =
     (case digit_of radix c of
        None \<Rightarrow> acc
      | Some d \<Rightarrow> digits_value radix cs (Some ((case acc of None \<Rightarrow> 0 | Some a \<Rightarrow> a) * int radix + int d)))"

definition parseInt :: "string \<Rightarrow> jsnum" where
  "parseInt str =
     (let s = dropWhile is_space str;
          neg = starts_with ''-'' s;
          s = (if starts_with ''-'' s \<or> starts_with ''+'' s then tl s else s);
          hex = (starts_with ''0x'' s \<or> starts_with ''0X'' s);
          v = (if hex then digits_value 16 (drop 2 s) None else digits_value 10 s None)
      in case v of
           None \<Rightarrow> NaN
         | Some n \<Rightarrow> Num (if neg then - n else n))"

section \<open>Process environment\<close>

record env =
  SUSPICIOUS_LOGIN_THRESHOLD :: "string option"
  ACCOUNT_LOCKOUT_DURATION :: "string option"
  JWT_SECRET :: "string option"
  JWT_EXPIRES_IN :: "string option"
  JWT_REFRESH_SECRET :: "string option"
  JWT_REFRESH_EXPIRES_IN :: "string option"

definition env0 :: env where
  "env0 = \<lparr> SUSPICIOUS_LOGIN_THRESHOLD = None, ACCOUNT_LOCKOUT_DURATION = None,
            JWT_SECRET = None, JWT_EXPIRES_IN = None,
            JWT_REFRESH_SECRET = None, JWT_REFRESH_EXPIRES_IN = None \<rparr>"

section \<open>Abuse tracker (middleware/security)\<close>

text \<open>
  \<open>suspiciousActivities\<close> is a process-wide \<open>Map\<close> from identifier to a record. The
  optional \<open>blockUntil\<close> is \<open>None\<close> when undefined; a \<open>Date\<close> built from \<open>NaN\<close> is
  \<open>Some NaN\<close> (an object, hence truthy, whose \<open>getTime()\<close> is \<open>NaN\<close>).
\<close>

record activity =
  count :: int
  lastAttempt :: int
  blocked :: bool
  blockUntil :: "jsnum option"

type_synonym abuse = "string \<rightharpoonup> activity"

definition threshold :: "env \<Rightarrow> jsnum" where
  "threshold e = parseInt (or_default (SUSPICIOUS_LOGIN_THRESHOLD e) ''5'')"

definition lockoutDuration :: "env \<Rightarrow> jsnum" where
  "lockoutDuration e = parseInt (or_default (ACCOUNT_LOCKOUT_DURATION e) ''900000'')"

text \<open>
  \<open>trackSuspiciousActivity(identifier, activityType, details)\<close> at clock value \<open>now\<close>; the
  clock reads of one synchronous call are one instant. The arguments \<open>activityType\<close> and
  \<open>details\<close> only reach the log call and are left out.
\<close>

definition trackSuspiciousActivity :: "env \<Rightarrow> abuse \<Rightarrow> string \<Rightarrow> int \<Rightarrow> abuse" where
  "trackSuspiciousActivity e s identifier now =
     (let a0 = (case s identifier of
                  Some a \<Rightarrow> a
                | None \<Rightarrow> \<lparr> count = 0, lastAttempt = now, blocked = False, blockUntil = None \<rparr>);
          a1 = a0 \<lparr> count := count a0 + 1, lastAttempt := now \<rparr>;
          a2 = (if num_ge (Num (count a1)) (threshold e) \<and> \<not> blocked a1
                then a1 \<lparr> blocked := True,
                          blockUntil := Some (date_of (num_add (Num now) (lockoutDuration e))) \<rparr>
                else a1);
          s' = s(identifier \<mapsto> a2)
      in if now - lastAttempt a2 > 24 * 60 * 60 * 1000 then s'(identifier := None) else s')"

text \<open>\<open>isBlocked(identifier)\<close> at clock value \<open>now\<close>: the answer and the map afterwards.\<close>

definition isBlocked :: "abuse \<Rightarrow> string \<Rightarrow> int \<Rightarrow> bool \<times> abuse" where
  "isBlocked s identifier now =
     (case s identifier of
        None \<Rightarrow> (False, s)
      | Some a \<Rightarrow>
          (if \<not> blocked a then (False, s)
           else case blockUntil a of
               None \<Rightarrow> (False, s)
             | Some until \<Rightarrow>
                 if num_gt (Num now) until
                 then (False, s(identifier \<mapsto> a \<lparr> blocked := False, blockUntil := None, count := 0 \<rparr>))
                 else (True, s)))"

text \<open>
  The callback of the module's hourly \<open>setInterval\<close>, fired at clock value \<open>now\<close>: every
  record whose last attempt is more than 24 hours old is deleted, blocked or not.
\<close>

definition day_ms :: int where
  "day_ms = 24 * 60 * 60 * 1000"

definition sweep :: "abuse \<Rightarrow> int \<Rightarrow> abuse" where
  "sweep s now =
     (\<lambda>key. case s key of
              None \<Rightarrow> None
            | Some a \<Rightarrow> if lastAttempt a < now - day_ms then None else Some a)"

text \<open>
  What happens to the shared map, in the order it happens: a failure recording, an
  \<open>isBlocked\<close> call, or a firing of the sweep, each with its clock value. A run returns the
  answers of its \<open>isBlocked\<close> calls, each with its identifier, and the map afterwards. The
  timer fires once an hour; a run may hold a sweep at any clock value, so what holds of
  every run holds of the timer's schedule.
\<close>

datatype event = Track string int | Check string int | Sweep int

fun clock :: "event \<Rightarrow> int" where
  "clock (Track i t) = t"
| "clock (Check i t) = t"
| "clock (Sweep t) = t"

fun step :: "env \<Rightarrow> abuse \<Rightarrow> event \<Rightarrow> (string \<times> bool) list \<times> abuse" where
  "step e s (Track i t) = ([], trackSuspiciousActivity e s i t)"
| "step e s (Check i t) = ([(i, fst (isBlocked s i t))], snd (isBlocked s i t))"
| "step e s (Sweep t) = ([], sweep s t)"

fun run :: "env \<Rightarrow> abuse \<Rightarrow> event list \<Rightarrow> (string \<times> bool) list \<times> abuse" where
  "run e s [] = ([], s)"
| "run e s (ev # evs) =
     (fst (step e s ev) @ fst (run e (snd (step e s ev)) evs),
      snd (run e (snd (step e s ev)) evs))"

fun is_track :: "string \<Rightarrow> event \<Rightarrow> bool" where
  "is_track i (Track j t) = (j = i)"
| "is_track i _ = False"

fun is_check :: "string \<Rightarrow> event \<Rightarrow> bool" where
  "is_check i (Check j t) = (j = i)"
| "is_check i _ = False"

text \<open>The events that read or write an identifier's record: its own, and every sweep.\<close>

fun touches :: "string \<Rightarrow> event \<Rightarrow> bool" where
  "touches i (Track j t) = (j = i)"
| "touches i (Check j t) = (j = i)"
| "touches i (Sweep t) = True"

text \<open>The number of failure recordings for an identifier in a run.\<close>

definition hits :: "string \<Rightarrow> event list \<Rightarrow> nat" where
  "hits i evs = length (filter (is_track i) evs)"

text \<open>The attempt count recorded for an identifier (0 without a record).\<close>

definition count_of :: "abuse \<Rightarrow> string \<Rightarrow> int" where
  "count_of s k = (case s k of None \<Rightarrow> 0 | Some a \<Rightarrow> count a)"

text \<open>
  States of one identifier's record. \<open>unblocked\<close>: no record, or a record that is not
  blocked and was last touched at or after \<open>lo\<close>. \<open>locked\<close>: blocked until \<open>u\<close> and last
  touched at or after \<open>tk\<close>. \<open>lapsing\<close>: no record, or blocked until \<open>u\<close>. \<open>released\<close>:
  no record, or the record as \<open>isBlocked\<close> resets it.
\<close>

definition unblocked :: "abuse \<Rightarrow> string \<Rightarrow> int \<Rightarrow> bool" where
  "unblocked s i lo = (case s i of None \<Rightarrow> True | Some a \<Rightarrow> \<not> blocked a \<and> lo \<le> lastAttempt a)"

definition locked :: "abuse \<Rightarrow> string \<Rightarrow> int \<Rightarrow> int \<Rightarrow> bool" where
  "locked s i u tk =
     (case s i of
        None \<Rightarrow> False
      | Some a \<Rightarrow> blocked a \<and> blockUntil a = Some (Num u) \<and> tk \<le> lastAttempt a)"

definition lapsing :: "abuse \<Rightarrow> string \<Rightarrow> int \<Rightarrow> bool" where
  "lapsing s i u =
     (case s i of None \<Rightarrow> True | Some a \<Rightarrow> blocked a \<and> blockUntil a = Some (Num u))"

definition released :: "abuse \<Rightarrow> string \<Rightarrow> bool" where
  "released s i =
     (case s i of None \<Rightarrow> True | Some a \<Rightarrow> \<not> blocked a \<and> count a = 0 \<and> blockUntil a = None)"

section \<open>Errors and responses\<close>

text \<open>
  Thrown values: a plain \<open>Error\<close> with its message, an \<open>AppError\<close> with message and
  status code, and the two error classes of the token library that the global handler
  tells apart by name.
\<close>

datatype js_error =
    Error string
  | AppError string int
  | JsonWebTokenError string
  | TokenExpiredError string

fun err_name :: "js_error \<Rightarrow> string" where
  "err_name (Error m) = ''Error''"
| "err_name (AppError m c) = ''Error''"
| "err_name (JsonWebTokenError m) = ''JsonWebTokenError''"
| "err_name (TokenExpiredError m) = ''TokenExpiredError''"

fun err_message :: "js_error \<Rightarrow> string" where
  "err_message (Error m) = m"
| "err_message (AppError m c) = m"
| "err_message (JsonWebTokenError m) = m"
| "err_message (TokenExpiredError m) = m"

fun err_statusCode :: "js_error \<Rightarrow> int option" where
  "err_statusCode (AppError m c) = Some c"
| "err_statusCode _ = None"

section \<open>Token service (utils/jwt)\<close>

record JWTPayload =
  userId :: string
  p_email :: string
  p_role :: string
  iat :: "int option"
  exp :: "int option"

text \<open>
  The token library is not part of the repository. A token is modelled symbolically: either
  a string that does not decode, or a payload together with the key that signed it, so a
  signature verifies exactly under that key.
\<close>

datatype token = Malformed string | Signed JWTPayload string

text \<open>
  The library's \<open>timespan(expiresIn, timestamp)\<close>, which reads the span string and gives
  the second of expiry, or nothing when the string is no timespan. It computes in floating
  point on the span strings of another library and is a parameter here, named
  \<open>timespan\<close>.
\<close>

type_synonym timespan = "string \<Rightarrow> int \<Rightarrow> int option"

text \<open>
  \<open>jwt.sign(payload, secret, {expiresIn})\<close> at clock value \<open>now\<close>: the issue time is the
  clock in whole seconds, the expiry is what \<open>timespan\<close> gives from it, and a string that
  is no timespan makes the call throw.
\<close>

definition jwt_sign :: "timespan \<Rightarrow> JWTPayload \<Rightarrow> string \<Rightarrow> string \<Rightarrow> int \<Rightarrow> js_error + token" where
  \<open>jwt_sign timespan payload secret expiresIn now =
     (let timestamp = now div 1000
      in case timespan expiresIn timestamp of
           None \<Rightarrow> Inl (Error ''"expiresIn" should be a number of seconds or string representing a timespan eg: "1d", "20h", 60'')
         | Some e \<Rightarrow> Inr (Signed (payload \<lparr> iat := Some timestamp, exp := Some e \<rparr>) secret))\<close>

text \<open>
  \<open>jwt.verify(token, secret)\<close> at clock value \<open>now\<close>: decoding, then the signature, then
  the expiry (expired from the second \<open>exp\<close> on).
\<close>

definition jwt_verify :: "token \<Rightarrow> string \<Rightarrow> int \<Rightarrow> js_error + JWTPayload" where
  "jwt_verify tok secret now =
     (case tok of
        Malformed str \<Rightarrow> Inl (JsonWebTokenError ''jwt malformed'')
      | Signed payload key \<Rightarrow>
          if key \<noteq> secret then Inl (JsonWebTokenError ''invalid signature'')
          else case exp payload of
                 None \<Rightarrow> Inr payload
               | Some e \<Rightarrow> if now div 1000 \<ge> e then Inl (TokenExpiredError ''jwt expired'')
                           else Inr payload)"

datatype role = User | Admin

fun role_string :: "role \<Rightarrow> string" where
  "role_string User = ''user''"
| "role_string Admin = ''admin''"

record socialAccounts =
  google :: "string option"
  github :: "string option"

text \<open>
  The user document (\<open>IUser\<close> in types/index.ts); \<open>uid\<close> is \<open>_id.toString()\<close>. The
  profile text, preferences and time stamps play no part here and are left out.
\<close>

record IUser =
  uid :: string
  email :: string
  password :: "string option"
  firstName :: string
  lastName :: string
  avatar :: "string option"
  role :: role
  isEmailVerified :: bool
  emailVerificationToken :: "string option"
  emailVerificationExpires :: "int option"
  passwordResetToken :: "string option"
  passwordResetExpires :: "int option"
  socialAccounts :: socialAccounts

definition payload_of :: "IUser \<Rightarrow> JWTPayload" where
  "payload_of user = \<lparr> userId = uid user, p_email = email user, p_role = role_string (role user),
                       iat = None, exp = None \<rparr>"

definition generateAccessToken :: "timespan \<Rightarrow> env \<Rightarrow> IUser \<Rightarrow> int \<Rightarrow> js_error + token" where
  "generateAccessToken timespan e user now =
     (let payload = payload_of user
      in case truthy (JWT_SECRET e) of
           None \<Rightarrow> Inl (Error ''JWT_SECRET is not defined'')
         | Some secret \<Rightarrow>
             jwt_sign timespan payload secret (or_default (JWT_EXPIRES_IN e) ''7d'') now)"

definition generateRefreshToken :: "timespan \<Rightarrow> env \<Rightarrow> IUser \<Rightarrow> int \<Rightarrow> js_error + token" where
  "generateRefreshToken timespan e user now =
     (let payload = payload_of user
      in case truthy (JWT_REFRESH_SECRET e) of
           None \<Rightarrow> Inl (Error ''JWT_REFRESH_SECRET is not defined'')
         | Some secret \<Rightarrow>
             jwt_sign timespan payload secret (or_default (JWT_REFRESH_EXPIRES_IN e) ''30d'') now)"

definition verifyAccessToken :: "env \<Rightarrow> token \<Rightarrow> int \<Rightarrow> js_error + JWTPayload" where
  "verifyAccessToken e tok now =
     (case truthy (JWT_SECRET e) of
        None \<Rightarrow> Inl (Error ''JWT_SECRET is not defined'')
      | Some secret \<Rightarrow>
          (case jwt_verify tok secret now of
             Inr payload \<Rightarrow> Inr payload
           | Inl err \<Rightarrow> Inl (Error ''Invalid access token'')))"

definition verifyRefreshToken :: "env \<Rightarrow> token \<Rightarrow> int \<Rightarrow> js_error + JWTPayload" where
  "verifyRefreshToken e tok now =
     (case truthy (JWT_REFRESH_SECRET e) of
        None \<Rightarrow> Inl (Error ''JWT_REFRESH_SECRET is not defined'')
      | Some secret \<Rightarrow>
          (case jwt_verify tok secret now of
             Inr payload \<Rightarrow> Inr payload
           | Inl err \<Rightarrow> Inl (Error ''Invalid refresh token'')))"

text \<open>The expiry a token carries, if any.\<close>

fun token_exp :: "token \<Rightarrow> int option" where
  "token_exp (Signed payload key) = exp payload"
| "token_exp (Malformed str) = None"

section \<open>User collection\<close>

text \<open>
  Modelled from the spec: the \<open>User\<close> model (models/User) is not among the sources. The
  collection is the list of its documents, with the e-mail address identifying an account;
  \<open>findOne({email})\<close> returns the first document with that address, \<open>save\<close> writes a
  document back under its id and \<open>create\<close> appends one. Store operations that reject
  (connection loss, schema validation) are not modelled.
\<close>

type_synonym users = "IUser list"

definition findOne :: "users \<Rightarrow> string \<Rightarrow> IUser option" where
  "findOne us em = find (\<lambda>u. email u = em) us"

definition save :: "users \<Rightarrow> IUser \<Rightarrow> users" where
  "save us u = map (\<lambda>v. if uid v = uid u then u else v) us"

definition create :: "users \<Rightarrow> IUser \<Rightarrow> users" where
  "create us u = us @ [u]"

text \<open>
  Modelled from the spec: \<open>generatePasswordResetToken\<close> and \<open>clearPasswordResetToken\<close> are
  methods of the missing \<open>User\<close> model. The first stores the digest of a fresh random value
  with a one-hour expiry and returns the raw value; the second clears both fields. The
  random value and the digest function are parameters.
\<close>

definition generatePasswordResetToken :: "(string \<Rightarrow> string) \<Rightarrow> string \<Rightarrow> IUser \<Rightarrow> int \<Rightarrow> IUser" where
  "generatePasswordResetToken sha256 raw u now =
     u \<lparr> passwordResetToken := Some (sha256 raw),
         passwordResetExpires := Some (now + 60 * 60 * 1000) \<rparr>"

definition clearPasswordResetToken :: "IUser \<Rightarrow> IUser" where
  "clearPasswordResetToken u = u \<lparr> passwordResetToken := None, passwordResetExpires := None \<rparr>"

section \<open>OAuth linker (config/passport)\<close>

text \<open>
  The verified profile a provider hands to the strategy callback: its id, the values of its
  e-mail and photo entries, and its name fields.
\<close>

record profile =
  profile_id :: string
  emails :: "string list"
  photos :: "string list"
  givenName :: "string option"
  familyName :: "string option"
  displayName :: "string option"

text \<open>\<open>xs?.[0]?.value\<close>, kept only when truthy.\<close>

definition first_value :: "string list \<Rightarrow> string option" where
  "first_value xs = (case xs of [] \<Rightarrow> None | x # _ \<Rightarrow> truthy (Some x))"

definition new_user :: "string \<Rightarrow> string \<Rightarrow> string \<Rightarrow> string \<Rightarrow> string option \<Rightarrow> socialAccounts \<Rightarrow> IUser" where
  "new_user newid em fn ln av sa =
     \<lparr> uid = newid, email = em, password = None, firstName = fn, lastName = ln, avatar = av,
       role = User, isEmailVerified = True,
       emailVerificationToken = None, emailVerificationExpires = None,
       passwordResetToken = None, passwordResetExpires = None, socialAccounts = sa \<rparr>"

text \<open>
  The Google strategy callback: the outcome handed to \<open>done\<close> and the collection
  afterwards. \<open>newid\<close> is the id the store gives a created document.
\<close>

definition googleVerify :: "users \<Rightarrow> string \<Rightarrow> profile \<Rightarrow> (js_error + IUser) \<times> users" where
  "googleVerify us newid p =
     (case first_value (emails p) of
        None \<Rightarrow> (Inl (Error ''Email not found in Google profile''), us)
      | Some em \<Rightarrow>
          (case findOne us em of
             Some user \<Rightarrow>
               (let u1 = user \<lparr> socialAccounts := (socialAccounts user) \<lparr> google := Some (profile_id p) \<rparr> \<rparr>;
                    u2 = (if truthy (avatar u1) = None \<and> first_value (photos p) \<noteq> None
                          then u1 \<lparr> avatar := first_value (photos p) \<rparr> else u1)
                in (Inr u2, save us u2))
           | None \<Rightarrow>
               (let u = new_user newid em
                          (or_default (givenName p) '''') (or_default (familyName p) '''')
                          (case photos p of [] \<Rightarrow> None | x # _ \<Rightarrow> Some x)
                          \<lparr> google = Some (profile_id p), github = None \<rparr>
                in (Inr u, create us u))))"

text \<open>The GitHub strategy callback; the names come from the display name split at spaces.\<close>

definition githubVerify :: "users \<Rightarrow> string \<Rightarrow> profile \<Rightarrow> (js_error + IUser) \<times> users" where
  "githubVerify us newid p =
     (case first_value (emails p) of
        None \<Rightarrow> (Inl (Error ''Email not found in GitHub profile''), us)
      | Some em \<Rightarrow>
          (case findOne us em of
             Some user \<Rightarrow>
               (let u1 = user \<lparr> socialAccounts := (socialAccounts user) \<lparr> github := Some (profile_id p) \<rparr> \<rparr>;
                    u2 = (if truthy (avatar u1) = None \<and> first_value (photos p) \<noteq> None
                          then u1 \<lparr> avatar := first_value (photos p) \<rparr> else u1)
                in (Inr u2, save us u2))
           | None \<Rightarrow>
               (let dn = (case displayName p of None \<Rightarrow> [] | Some d \<Rightarrow> d);
                    u = new_user newid em
                          (takeWhile (\<lambda>c. c \<noteq> CHR '' '') dn)
                          (drop 1 (dropWhile (\<lambda>c. c \<noteq> CHR '' '') dn))
                          (case photos p of [] \<Rightarrow> None | x # _ \<Rightarrow> Some x)
                          \<lparr> google = None, github = Some (profile_id p) \<rparr>
                in (Inr u, create us u))))"

section \<open>Responses and the global error handler (middleware/errorHandler)\<close>

record user_view =
  view_id :: string
  view_email :: string
  view_firstName :: string
  view_lastName :: string
  view_role :: role
  view_isEmailVerified :: bool

record login_data =
  data_user :: user_view
  accessToken :: token
  refreshToken :: token
  sessionFingerprint :: string

record response =
  status :: int
  success :: bool
  message :: string
  retryAfter :: "jsnum option"
  data :: "login_data option"

definition oauth_message :: "string \<Rightarrow> string" where
  "oauth_message m =
     (if str_includes m ''access_denied'' then ''OAuth access was denied by the user''
      else if str_includes m ''invalid_grant'' then ''OAuth grant is invalid or expired''
      else if str_includes m ''invalid_client'' then ''OAuth client configuration is invalid''
      else if str_includes m ''invalid_request'' then ''OAuth request is malformed''
      else if str_includes m ''server_error'' then ''OAuth provider server error''
      else if str_includes m ''temporarily_unavailable'' then ''OAuth service temporarily unavailable''
      else if str_includes m ''network'' then ''Network error during OAuth authentication''
      else ''OAuth authentication failed'')"

text \<open>
  \<open>errorHandler\<close> on the thrown values above. Its tests for the database, validation,
  passport and upload errors look at names and codes that none of these values carries; the
  token and OAuth tests remain. The stack trace added in development mode is not part of
  the response record.
\<close>

definition errorHandler :: "js_error \<Rightarrow> response" where
  "errorHandler err =
     (let error = (err_message err, err_statusCode err);
          error = (if err_name err = ''JsonWebTokenError'' then (''Invalid token'', Some 401) else error);
          error = (if err_name err = ''TokenExpiredError'' then (''Token expired'', Some 401) else error);
          error = (if err_name err = ''OAuth2Error'' \<or> str_includes (err_message err) ''oauth''
                   then (oauth_message (err_message err), Some 400) else error);
          statusCode = (case snd error of None \<Rightarrow> 500 | Some c \<Rightarrow> if c = 0 then 500 else c);
          msg = (if fst error = [] then ''Internal Server Error'' else fst error)
      in \<lparr> status = statusCode, success = False, message = msg, retryAfter = None, data = None \<rparr>)"

section \<open>Handlers (controllers/authController)\<close>

record login_request =
  body_email :: string
  body_password :: string
  req_ip :: "string option"

definition view_of :: "IUser \<Rightarrow> user_view" where
  "view_of u = \<lparr> view_id = uid u, view_email = email u, view_firstName = firstName u,
                 view_lastName = lastName u, view_role = role u,
                 view_isEmailVerified = isEmailVerified u \<rparr>"

text \<open>
  The branch of \<open>login\<close> taken on a failed credential check: both failure recordings, then
  the thrown error as the global handler answers it.
\<close>

definition login_failed :: "env \<Rightarrow> abuse \<Rightarrow> string \<Rightarrow> string \<Rightarrow> int \<Rightarrow> response \<times> abuse" where
  "login_failed e s normalizedEmail ip now =
     (let s1 = trackSuspiciousActivity e s (''email:'' @ normalizedEmail) now;
          s2 = trackSuspiciousActivity e s1 ip now
      in (errorHandler (AppError ''Invalid email or password'' 401), s2))"

text \<open>
  \<open>login\<close> at clock value \<open>now\<close>: the response and the abuse map afterwards.
  \<open>comparePassword\<close> is a method of the missing \<open>User\<close> model and is a parameter
  (\<open>None\<close> when it rejects); \<open>fingerprint\<close> is the random session fingerprint and
  \<open>timespan\<close> the signing library's reading of span strings.
\<close>

definition login ::
  "timespan \<Rightarrow> env \<Rightarrow> (IUser \<Rightarrow> string \<Rightarrow> bool option) \<Rightarrow> string \<Rightarrow> users \<Rightarrow> abuse
     \<Rightarrow> login_request \<Rightarrow> int \<Rightarrow> response \<times> abuse" where
  "login timespan e comparePassword fingerprint us s req now =
     (let ip = or_default (req_ip req) ''unknown'';
          normalizedEmail = trim (toLowerCase (body_email req));
          failed500 = errorHandler (AppError ''Login failed. Please try again.'' 500)
      in case findOne us normalizedEmail of
           None \<Rightarrow> login_failed e s normalizedEmail ip now
         | Some user \<Rightarrow>
             (case comparePassword user (body_password req) of
                None \<Rightarrow> (failed500, s)
              | Some False \<Rightarrow> login_failed e s normalizedEmail ip now
              | Some True \<Rightarrow>
                  if \<not> isEmailVerified user
                  then (errorHandler (AppError
                          ''Please verify your email before logging in. Check your inbox for a verification link.''
                          401), s)
                  else (case generateAccessToken timespan e user now of
                          Inl err \<Rightarrow> (failed500, s)
                        | Inr at \<Rightarrow>
                            (case generateRefreshToken timespan e user now of
                               Inl err \<Rightarrow> (failed500, s)
                             | Inr rt \<Rightarrow>
                                 (\<lparr> status = 200, success = True, message = ''Login successful'',
                                     retryAfter = None,
                                     data = Some \<lparr> data_user = view_of user, accessToken = at,
                                                   refreshToken = rt,
                                                   sessionFingerprint = fingerprint \<rparr> \<rparr>, s)))))"

text \<open>The credential check of \<open>login\<close> fails: no user with the address, or a wrong password.\<close>

definition credentials_fail :: "users \<Rightarrow> (IUser \<Rightarrow> string \<Rightarrow> bool option) \<Rightarrow> login_request \<Rightarrow> bool" where
  "credentials_fail us cmp r =
     (case findOne us (trim (toLowerCase (body_email r))) of
        None \<Rightarrow> True
      | Some u \<Rightarrow> cmp u (body_password r) = Some False)"

text \<open>
  What the server process does to the abuse map over time: it handles a login request, or
  the hourly sweep fires, each with its clock value. A run returns the responses of its
  logins and the map afterwards.
\<close>

datatype http_event = LoginAt login_request int | SweepAt int

fun http_clock :: "http_event \<Rightarrow> int" where
  "http_clock (LoginAt r t) = t"
| "http_clock (SweepAt t) = t"

fun serve ::
  "timespan \<Rightarrow> env \<Rightarrow> (IUser \<Rightarrow> string \<Rightarrow> bool option) \<Rightarrow> string \<Rightarrow> users \<Rightarrow> abuse
     \<Rightarrow> http_event list \<Rightarrow> response list \<times> abuse" where
  "serve ts e cmp fp us s [] = ([], s)"
| "serve ts e cmp fp us s (LoginAt r t # hs) =
     (fst (login ts e cmp fp us s r t) # fst (serve ts e cmp fp us (snd (login ts e cmp fp us s r t)) hs),
      snd (serve ts e cmp fp us (snd (login ts e cmp fp us s r t)) hs))"
| "serve ts e cmp fp us s (SweepAt t # hs) = serve ts e cmp fp us (sweep s t) hs"

text \<open>The key under which a request's address is recorded: \<open>req.ip || 'unknown'\<close>.\<close>

definition address_key :: "login_request \<Rightarrow> string" where
  "address_key r = or_default (req_ip r) ''unknown''"

definition email_key :: "login_request \<Rightarrow> string" where
  "email_key r = ''email:'' @ trim (toLowerCase (body_email r))"

text \<open>The failed logins from the address \<open>k\<close> in a run, counted.\<close>

fun fails_from :: "string \<Rightarrow> users \<Rightarrow> (IUser \<Rightarrow> string \<Rightarrow> bool option) \<Rightarrow> http_event \<Rightarrow> bool" where
  "fails_from k us cmp (LoginAt r t) = (address_key r = k \<and> credentials_fail us cmp r)"
| "fails_from k us cmp (SweepAt t) = False"

definition failures :: "string \<Rightarrow> users \<Rightarrow> (IUser \<Rightarrow> string \<Rightarrow> bool option) \<Rightarrow> http_event list \<Rightarrow> nat" where
  "failures k us cmp hs = length (filter (fails_from k us cmp) hs)"

text \<open>What a server event does to the abuse map, as events of the map.\<close>

fun recordings :: "users \<Rightarrow> (IUser \<Rightarrow> string \<Rightarrow> bool option) \<Rightarrow> http_event \<Rightarrow> event list" where
  "recordings us cmp (LoginAt r t) =
     (if credentials_fail us cmp r then [Track (email_key r) t, Track (address_key r) t] else [])"
| "recordings us cmp (SweepAt t) = [Sweep t]"

definition generic_reset_response :: response where
  "generic_reset_response =
     \<lparr> status = 200, success = True,
       message = ''If an account with that email exists, a password reset link has been sent.'',
       retryAfter = None, data = None \<rparr>"

text \<open>
  \<open>forgotPassword\<close>: the response and the collection afterwards. \<open>send_ok\<close> tells
  whether the call to the mail service resolves.
\<close>

definition forgotPassword ::
  "(string \<Rightarrow> string) \<Rightarrow> string \<Rightarrow> bool \<Rightarrow> users \<Rightarrow> string \<Rightarrow> int \<Rightarrow> response \<times> users" where
  "forgotPassword sha256 raw send_ok us em now =
     (case findOne us (toLowerCase em) of
        None \<Rightarrow> (generic_reset_response, us)
      | Some user \<Rightarrow>
          (let u1 = generatePasswordResetToken sha256 raw user now;
               us1 = save us u1
           in if send_ok then (generic_reset_response, us1)
              else (errorHandler (AppError ''Email could not be sent'' 500),
                    save us1 (clearPasswordResetToken u1))))"

section \<open>Block check middleware (middleware/security)\<close>

record request =
  ip :: "string option"
  body_email_opt :: "string option"
  path :: string

text \<open>\<open>Math.ceil((blockUntil - now) / 1000)\<close>, or 900 without a \<open>blockUntil\<close>.\<close>

definition retry_after :: "abuse \<Rightarrow> string \<Rightarrow> int \<Rightarrow> jsnum" where
  "retry_after s k now =
     (case s k of
        None \<Rightarrow> Num 900
      | Some a \<Rightarrow>
          (case blockUntil a of
             None \<Rightarrow> Num 900
           | Some NaN \<Rightarrow> NaN
           | Some (Num u) \<Rightarrow> Num (- ((- (u - now)) div 1000))))"

text \<open>\<open>checkBlocked\<close>: the 429 response, or \<open>None\<close> when \<open>next()\<close> is called.\<close>

definition checkBlocked :: "abuse \<Rightarrow> request \<Rightarrow> int \<Rightarrow> response option \<times> abuse" where
  "checkBlocked s req now =
     (let ipk = or_default (ip req) ''unknown'';
          em = map_option toLowerCase (body_email_opt req);
          (b1, s1) = isBlocked s ipk now
      in if b1
         then (Some \<lparr> status = 429, success = False,
                      message = ''Access temporarily blocked due to suspicious activity. Please try again later.'',
                      retryAfter = Some (retry_after s1 ipk now), data = None \<rparr>, s1)
         else (case truthy em of
                 None \<Rightarrow> (None, s1)
               | Some m \<Rightarrow>
                   if str_includes (path req) ''/auth/''
                   then (let emailKey = ''email:'' @ m;
                             (b2, s2) = isBlocked s1 emailKey now
                         in if b2
                            then (Some \<lparr> status = 429, success = False,
                                         message = ''Account temporarily locked due to multiple failed login attempts.'',
                                         retryAfter = Some (retry_after s2 emailKey now), data = None \<rparr>, s2)
                            else (None, s2))
                   else (None, s1)))"

section \<open>Input sanitizer (middleware/security)\<close>

text \<open>
  \<open>s.replace(re, '')\<close> with a global regular expression: scanning from the left, a match
  at the current position is dropped and the scan resumes behind it; otherwise the
  character is kept. \<open>m\<close> gives the length of the match that starts at the current
  position (every pattern below matches at least one character); the counter holds the
  characters of a match still to be dropped.
\<close>

fun strip :: "(string \<Rightarrow> nat option) \<Rightarrow> nat \<Rightarrow> string \<Rightarrow> string" where
  "strip m n [] = []"
| "strip m (Suc n) (c # cs) = strip m n cs"
| "strip m 0 (c # cs) =
     (case m (c # cs) of
        Some k \<Rightarrow> strip m (k - 1) cs
      | None \<Rightarrow> c # strip m 0 cs)"

fun starts_with_ci :: "string \<Rightarrow> string \<Rightarrow> bool" where
  "starts_with_ci [] s = True"
| "starts_with_ci (p # ps) [] = False"
| "starts_with_ci (p # ps) (c # cs) = (lower_char p = lower_char c \<and> starts_with_ci ps cs)"

text \<open>A literal with the flag \<open>i\<close>, such as \<open>/\$where/gi\<close>.\<close>

definition match_literal :: "string \<Rightarrow> string \<Rightarrow> nat option" where
  "match_literal pat s = (if starts_with_ci pat s then Some (length pat) else None)"

text \<open>
  The lazy \<open>.*?\<close> before the closing tag: the number of characters, none of them a line
  terminator, up to the first closing tag.
\<close>

fun close_at :: "string \<Rightarrow> nat option" where
  "close_at [] = None"
| "close_at (c # cs) =
     (if starts_with_ci ''</script>'' (c # cs) then Some 0
      else if is_line_terminator c then None
      else map_option Suc (close_at cs))"

text \<open>\<open>/<script[^>]*>.*?<\/script>/gi\<close> at the current position.\<close>

definition match_script :: "string \<Rightarrow> nat option" where
  "match_script s =
     (if starts_with_ci ''<script'' s
      then (let r = drop 7 s;
                a = takeWhile (\<lambda>c. c \<noteq> CHR ''>'') r
            in case dropWhile (\<lambda>c. c \<noteq> CHR ''>'') r of
                 [] \<Rightarrow> None
               | g # r2 \<Rightarrow>
                   (case close_at r2 of
                      None \<Rightarrow> None
                    | Some j \<Rightarrow> Some (7 + length a + 1 + j + 9)))
      else None)"

text \<open>\<open>/on\w+\s*=/gi\<close> at the current position.\<close>

definition match_handler :: "string \<Rightarrow> nat option" where
  "match_handler s =
     (if starts_with_ci ''on'' s
      then (let r = drop 2 s;
                w = takeWhile is_word_char r;
                r1 = dropWhile is_word_char r;
                sp = takeWhile is_space r1
            in if w \<noteq> [] \<and> starts_with ''='' (dropWhile is_space r1)
               then Some (2 + length w + length sp + 1) else None)
      else None)"

definition nosql_patterns :: "string list" where
  "nosql_patterns = [''$where'', ''$ne'', ''$gt'', ''$lt'', ''$regex'', ''$expr'', ''$jsonSchema'',
                     ''$mod'', ''$text'', ''$search'', ''javascript:'']"

text \<open>The string case of \<open>sanitizeObject\<close>: the chain of replacements, then \<open>trim\<close>.\<close>

definition sanitizeString :: "string \<Rightarrow> string" where
  "sanitizeString s =
     trim (strip match_handler 0
            (strip match_script 0
              (foldl (\<lambda>acc pat. strip (match_literal pat) 0 acc) s nosql_patterns)))"

datatype json =
    JString string
  | JNumber int
  | JBool bool
  | JNull
  | JArray "json list"
  | JObject "(string \<times> json) list"

definition cleanKey :: "string \<Rightarrow> string" where
  "cleanKey k = filter (\<lambda>c. is_word_char c \<or> c = CHR ''.'' \<or> c = CHR ''-'') k"

text \<open>
  An object is kept as the list of its own entries in the order \<open>Object.entries\<close>
  enumerates them: the keys that are array indices (canonical decimal numerals below
  \<open>2^32 - 1\<close>) in ascending order first, then the other keys in the order they were
  added.
\<close>

definition index_key :: "string \<Rightarrow> nat option" where
  "index_key k =
     (if k \<noteq> [] \<and> list_all is_digit k \<and> (k = ''0'' \<or> hd k \<noteq> CHR ''0'')
      then (case digits_value 10 k None of
              Some n \<Rightarrow> if n < 4294967295 then Some (nat n) else None
            | None \<Rightarrow> None)
      else None)"

fun insert_index :: "nat \<Rightarrow> string \<times> json \<Rightarrow> (string \<times> json) list \<Rightarrow> (string \<times> json) list" where
  "insert_index n kv [] = [kv]"
| "insert_index n kv (x # xs) =
     (case index_key (fst x) of
        Some m \<Rightarrow> if m < n then x # insert_index n kv xs else kv # x # xs
      | None \<Rightarrow> kv # x # xs)"

text \<open>
  \<open>sanitized[cleanKey] = v\<close>: an existing key keeps its place and takes the new value, a
  new key is added. The key \<open>__proto__\<close> names the prototype accessor, so the assignment
  adds no entry (it replaces the prototype when \<open>v\<close> is an object, which the list of
  entries does not show).
\<close>

definition assign :: "(string \<times> json) list \<Rightarrow> string \<Rightarrow> json \<Rightarrow> (string \<times> json) list" where
  "assign obj k v =
     (if k = ''__proto__'' then obj
      else if k \<in> fst ` set obj then map (\<lambda>kv. if fst kv = k then (k, v) else kv) obj
      else case index_key k of
             Some n \<Rightarrow> insert_index n (k, v) obj
           | None \<Rightarrow> obj @ [(k, v)])"

fun sanitizeObject :: "json \<Rightarrow> json" where
  "sanitizeObject (JString s) = JString (sanitizeString s)"
| "sanitizeObject (JArray xs) = JArray (map sanitizeObject xs)"
| "sanitizeObject (JObject kvs) =
     JObject (foldl (\<lambda>sanitized kv.
                if cleanKey (fst kv) \<noteq> []
                then assign sanitized (cleanKey (fst kv)) (sanitizeObject (snd kv))
                else sanitized) [] kvs)"
| "sanitizeObject obj = obj"

text \<open>\<open>sanitizeInput\<close>: the request's body and query afterwards (\<open>None\<close> when absent).\<close>

definition sanitizeInput :: "json option \<times> json option \<Rightarrow> json option \<times> json option" where
  "sanitizeInput req = (map_option sanitizeObject (fst req), map_option sanitizeObject (snd req))"

section \<open>Example inputs\<close>

text \<open>Concrete inputs at which the theorems below are instantiated.\<close>

definition env_k :: env where
  "env_k = env0 \<lparr> JWT_SECRET := Some ''access-secret'', JWT_REFRESH_SECRET := Some ''refresh-secret'' \<rparr>"

text \<open>A lockout of 48 hours.\<close>

definition env_48h :: env where
  "env_48h = env0 \<lparr> ACCOUNT_LOCKOUT_DURATION := Some ''172800000'' \<rparr>"

text \<open>
  A reading of span strings that agrees with the signing library on the strings used
  below: \<open>7d\<close> is 604800 seconds, \<open>15m\<close> is 900 seconds and \<open>soon\<close> is no timespan.
\<close>

definition spans0 :: timespan where
  "spans0 str timestamp =
     (if str = ''7d'' then Some (timestamp + 604800)
      else if str = ''15m'' then Some (timestamp + 900)
      else None)"

definition alice :: IUser where
  "alice = \<lparr> uid = ''64a1f0'', email = ''a@b.com'', password = Some ''bcrypt-digest'',
             firstName = ''Ann'', lastName = ''Bee'', avatar = None, role = User,
             isEmailVerified = False,
             emailVerificationToken = None, emailVerificationExpires = None,
             passwordResetToken = None, passwordResetExpires = None,
             socialAccounts = \<lparr> google = Some ''g-1'', github = None \<rparr> \<rparr>"

definition google_profile :: profile where
  "google_profile = \<lparr> profile_id = ''g-2'', emails = [''a@b.com''], photos = [''https://p/1.png''],
                      givenName = Some ''Ann'', familyName = Some ''Bee'', displayName = Some ''Ann Bee'' \<rparr>"

definition github_profile :: profile where
  "github_profile = \<lparr> profile_id = ''h-7'', emails = [''a@b.com''], photos = [],
                      givenName = None, familyName = None, displayName = Some ''Ann Bee'' \<rparr>"

definition never_match :: "IUser \<Rightarrow> string \<Rightarrow> bool option" where
  "never_match u pw = Some False"

definition attempt :: "string \<Rightarrow> login_request" where
  "attempt em = \<lparr> body_email = em, body_password = ''guess'', req_ip = Some ''1.2.3.4'' \<rparr>"

definition request0 :: request where
  "request0 = \<lparr> ip = Some ''1.2.3.4'', body_email_opt = Some ''z@z.com'', path = ''/api/auth/login'' \<rparr>"

text \<open>Four recordings for an address, with another identifier's recording and a sweep between.\<close>

definition four_tracks :: "event list" where
  "four_tracks = [Track ''1.2.3.4'' 0, Track ''email:a@b.com'' 0, Track ''1.2.3.4'' 10,
                  Sweep 15, Check ''1.2.3.4'' 16, Track ''1.2.3.4'' 20, Track ''1.2.3.4'' 30]"

text \<open>While the address is blocked: checks, a further recording and a sweep.\<close>

definition while_blocked :: "event list" where
  "while_blocked = [Check ''1.2.3.4'' 41, Track ''1.2.3.4'' 50, Sweep 600000, Check ''1.2.3.4'' 900040]"

text \<open>After the block: a sweep more than a day later and another identifier's check.\<close>

definition afterwards :: "event list" where
  "afterwards = [Sweep 90000000, Check ''email:a@b.com'' 90000001]"

text \<open>Four failed logins from one address on four e-mail addresses, with a sweep between.\<close>

definition four_logins :: "http_event list" where
  "four_logins = [LoginAt (attempt ''a@b.com'') 0, LoginAt (attempt ''c@d.com'') 1, SweepAt 2,
                  LoginAt (attempt ''e@f.com'') 2, LoginAt (attempt ''g@h.com'') 3]"

text \<open>Later events within the block: a sweep and another failed login.\<close>

definition later_logins :: "http_event list" where
  "later_logins = [SweepAt 5, LoginAt (attempt ''k@l.com'') 6]"

text \<open>Five failed logins, and five more after the 15 minutes of the first block.\<close>

definition ten_logins :: "http_event list" where
  "ten_logins = [LoginAt (attempt ''a@b.com'') 0, LoginAt (attempt ''c@d.com'') 1,
                 LoginAt (attempt ''e@f.com'') 2, LoginAt (attempt ''g@h.com'') 3,
                 LoginAt (attempt ''i@j.com'') 4,
                 LoginAt (attempt ''a@b.com'') 1000000, LoginAt (attempt ''c@d.com'') 1000001,
                 LoginAt (attempt ''e@f.com'') 1000002, LoginAt (attempt ''g@h.com'') 1000003,
                 LoginAt (attempt ''i@j.com'') 1000004]"

section \<open>Abuse tracker: lockout after the threshold\<close>

lemma threshold_default: "threshold env0 = Num 5"
  by (simp add: threshold_def env0_def parseInt_def digit_of_def is_space_def)

lemma lockoutDuration_default: "lockoutDuration env0 = Num 900000"
  by (simp add: lockoutDuration_def env0_def parseInt_def digit_of_def is_space_def)

lemma track_other: "j \<noteq> i \<Longrightarrow> trackSuspiciousActivity e s j t i = s i"
  by (simp add: trackSuspiciousActivity_def Let_def)

lemma isBlocked_other: "j \<noteq> i \<Longrightarrow> snd (isBlocked s j t) i = s i"
  by (simp add: isBlocked_def split: option.splits)

lemma run_append:
  "run e s (xs @ ys) =
     (fst (run e s xs) @ fst (run e (snd (run e s xs)) ys), snd (run e (snd (run e s xs)) ys))"
  by (induction xs arbitrary: s) simp_all

subsection \<open>Before the threshold\<close>

lemma step_unblocked:
  assumes "threshold e = Num th" and "unblocked s i lo"
    and "lo \<le> clock ev" and "clock ev \<le> lo + day_ms"
    and "is_track i ev \<longrightarrow> count_of s i + 1 < th"
  shows "unblocked (snd (step e s ev)) i lo \<and>
         count_of (snd (step e s ev)) i = count_of s i + (if is_track i ev then 1 else 0) \<and>
         (\<forall>a \<in> set (fst (step e s ev)). fst a = i \<longrightarrow> \<not> snd a)"
proof (cases ev)
  case (Track j t)
  show ?thesis
  proof (cases "j = i")
    case True
    with Track assms show ?thesis
      by (auto simp: unblocked_def count_of_def trackSuspiciousActivity_def Let_def
          split: option.splits)
  next
    case False
    with Track assms(2) show ?thesis
      by (simp add: unblocked_def count_of_def track_other)
  qed
next
  case (Check j t)
  show ?thesis
  proof (cases "j = i")
    case True
    with Check assms(2) show ?thesis
      by (auto simp: unblocked_def count_of_def isBlocked_def split: option.splits)
  next
    case False
    with Check assms(2) show ?thesis
      by (simp add: unblocked_def count_of_def isBlocked_other)
  qed
next
  case (Sweep t)
  with assms(2,3,4) show ?thesis
    by (auto simp: unblocked_def count_of_def sweep_def split: option.splits)
qed

lemma run_unblocked:
  assumes "threshold e = Num th"
  shows "unblocked s i lo \<Longrightarrow>
         \<forall>ev \<in> set es. lo \<le> clock ev \<and> clock ev \<le> lo + day_ms \<Longrightarrow>
         hits i es = 0 \<or> count_of s i + int (hits i es) < th \<Longrightarrow>
         unblocked (snd (run e s es)) i lo \<and>
         count_of (snd (run e s es)) i = count_of s i + int (hits i es) \<and>
         (\<forall>a \<in> set (fst (run e s es)). fst a = i \<longrightarrow> \<not> snd a)"
proof (induction es arbitrary: s)
  case Nil
  then show ?case by (simp add: hits_def)
next
  case (Cons ev es)
  let ?s = "snd (step e s ev)"
  have small: "is_track i ev \<longrightarrow> count_of s i + 1 < th"
    using Cons.prems(3) by (auto simp: hits_def)
  have st: "unblocked ?s i lo"
    "count_of ?s i = count_of s i + (if is_track i ev then 1 else 0)"
    "\<forall>a \<in> set (fst (step e s ev)). fst a = i \<longrightarrow> \<not> snd a"
    using step_unblocked[where e = e and s = s and i = i and ev = ev and lo = lo, OF assms]
      Cons.prems(1,2) small by auto
  have h: "hits i (ev # es) = (if is_track i ev then 1 else 0) + hits i es"
    by (simp add: hits_def)
  have "hits i es = 0 \<or> count_of ?s i + int (hits i es) < th"
    using Cons.prems(3) st(2) h by auto
  with Cons.IH[where s = ?s] st(1) Cons.prems(2)
  have ih: "unblocked (snd (run e ?s es)) i lo"
    "count_of (snd (run e ?s es)) i = count_of ?s i + int (hits i es)"
    "\<forall>a \<in> set (fst (run e ?s es)). fst a = i \<longrightarrow> \<not> snd a"
    by auto
  from ih st h show ?case by auto
qed

subsection \<open>The recording that reaches the threshold\<close>

lemma track_reaches:
  assumes "threshold e = Num th" and "lockoutDuration e = Num d"
    and "unblocked s i lo" and "th \<le> count_of s i + 1"
    and "\<bar>tk + d\<bar> \<le> 8640000000000000"
  shows "locked (trackSuspiciousActivity e s i tk) i (tk + d) tk"
  using assms
  by (auto simp: locked_def unblocked_def count_of_def trackSuspiciousActivity_def Let_def
      split: option.splits)

subsection \<open>While the block lasts\<close>

lemma isBlocked_locked:
  "locked s i u tk \<Longrightarrow> q \<le> u \<Longrightarrow> isBlocked s i q = (True, s)"
  by (auto simp: locked_def isBlocked_def split: option.splits)

lemma step_locked:
  assumes "locked s i u tk" and "u \<le> tk + day_ms"
    and "tk \<le> clock ev" and "clock ev \<le> u"
  shows "locked (snd (step e s ev)) i u tk \<and>
         (\<forall>a \<in> set (fst (step e s ev)). fst a = i \<longrightarrow> snd a)"
proof (cases ev)
  case (Track j t)
  show ?thesis
  proof (cases "j = i")
    case True
    with Track assms show ?thesis
      by (auto simp: locked_def trackSuspiciousActivity_def Let_def split: option.splits)
  next
    case False
    with Track assms(1) show ?thesis
      by (simp add: locked_def track_other)
  qed
next
  case (Check j t)
  show ?thesis
  proof (cases "j = i")
    case True
    with Check assms show ?thesis
      by (simp add: isBlocked_locked)
  next
    case False
    with Check assms(1) show ?thesis
      by (simp add: locked_def isBlocked_other)
  qed
next
  case (Sweep t)
  with assms show ?thesis
    by (auto simp: locked_def sweep_def split: option.splits)
qed

lemma run_locked:
  "locked s i u tk \<Longrightarrow> u \<le> tk + day_ms \<Longrightarrow>
   \<forall>ev \<in> set os. tk \<le> clock ev \<and> clock ev \<le> u \<Longrightarrow>
   locked (snd (run e s os)) i u tk \<and> (\<forall>a \<in> set (fst (run e s os)). fst a = i \<longrightarrow> snd a)"
proof (induction os arbitrary: s)
  case Nil
  then show ?case by simp
next
  case (Cons ev os)
  let ?s = "snd (step e s ev)"
  have st: "locked ?s i u tk" "\<forall>a \<in> set (fst (step e s ev)). fst a = i \<longrightarrow> snd a"
    using step_locked[where e = e and s = s and i = i and ev = ev and u = u and tk = tk]
      Cons.prems by auto
  from Cons.IH[where s = ?s] st(1) Cons.prems(2,3)
  have "locked (snd (run e ?s os)) i u tk"
    "\<forall>a \<in> set (fst (run e ?s os)). fst a = i \<longrightarrow> snd a"
    by auto
  with st(2) show ?case by auto
qed

subsection \<open>After the block\<close>

lemma locked_lapsing: "locked s i u tk \<Longrightarrow> lapsing s i u"
  by (auto simp: locked_def lapsing_def split: option.splits)

lemma step_lapsing:
  assumes "lapsing s i u" and "\<not> is_track i ev" and "\<not> is_check i ev"
  shows "lapsing (snd (step e s ev)) i u"
proof (cases ev)
  case (Track j t)
  with assms show ?thesis by (simp add: lapsing_def track_other)
next
  case (Check j t)
  with assms show ?thesis by (simp add: lapsing_def isBlocked_other)
next
  case (Sweep t)
  with assms(1) show ?thesis
    by (auto simp: lapsing_def sweep_def split: option.splits)
qed

lemma run_lapsing:
  "lapsing s i u \<Longrightarrow> \<forall>ev \<in> set ws. \<not> is_track i ev \<and> \<not> is_check i ev \<Longrightarrow>
   lapsing (snd (run e s ws)) i u"
proof (induction ws arbitrary: s)
  case Nil
  then show ?case by simp
next
  case (Cons ev ws)
  have "lapsing (snd (step e s ev)) i u"
    using step_lapsing[where e = e and s = s and i = i and ev = ev and u = u] Cons.prems
    by simp
  from Cons.IH[where s = "snd (step e s ev)", OF this] Cons.prems(2) show ?case by simp
qed

lemma isBlocked_lapsed:
  "lapsing s i u \<Longrightarrow> u < q \<Longrightarrow>
   fst (isBlocked s i q) = False \<and> released (snd (isBlocked s i q)) i"
  by (auto simp: lapsing_def released_def isBlocked_def split: option.splits)

text \<open>
  Claim C1, as the code has it. Take an identifier that has no record, or a record that
  is not blocked, and a run of events in which every clock value lies within one window
  of 24 hours that starts no later than the record's last attempt, so that no sweep
  removes the record. Let the recording at clock \<open>tk\<close>, within that window, be the one
  whose count reaches the threshold, and let the lockout duration \<open>d\<close> be at most 24 hours with \<open>tk + d\<close> a
  valid date. Then the record is blocked until \<open>tk + d\<close>; in any further run of events
  with clock values from \<open>tk\<close> to \<open>tk + d\<close>, sweeps and more recordings included, every
  \<open>isBlocked\<close> call for the identifier returns true; and after any events that neither
  record nor check the identifier, the first \<open>isBlocked\<close> call with the clock strictly
  past \<open>tk + d\<close> returns false and leaves the identifier without a record (when a sweep
  has removed it) or with \<open>blocked = false\<close>, no \<open>blockUntil\<close> and \<open>count = 0\<close>.
\<close>

theorem lockout_after_threshold:
  assumes "threshold e = Num th" and "lockoutDuration e = Num d"
    and "safe th" and "safe d" and "safe (count_of s i)"
    and "d \<le> day_ms" and "\<bar>tk + d\<bar> \<le> 8640000000000000"
    and "unblocked s i lo"
    and "\<forall>ev \<in> set es. lo \<le> clock ev \<and> clock ev \<le> lo + day_ms"
    and "hits i es = 0 \<or> count_of s i + int (hits i es) < th"
    and "th \<le> count_of s i + int (hits i es) + 1"
    and "\<forall>ev \<in> set os. tk \<le> clock ev \<and> clock ev \<le> tk + d"
    and "\<forall>ev \<in> set ws. \<not> is_track i ev \<and> \<not> is_check i ev"
    and "tk + d < q"
    and "s1 = snd (run e s (es @ [Track i tk]))"
    and "s2 = snd (run e s1 os)"
    and "s3 = snd (run e s2 ws)"
    and "lo \<le> tk" and "tk \<le> lo + day_ms"
  shows "locked s1 i (tk + d) tk \<and>
         (\<forall>a \<in> set (fst (run e s1 os)). fst a = i \<longrightarrow> snd a) \<and>
         fst (isBlocked s3 i q) = False \<and>
         released (snd (isBlocked s3 i q)) i"
proof -
  let ?s0 = "snd (run e s es)"
  have before: "unblocked ?s0 i lo" "count_of ?s0 i = count_of s i + int (hits i es)"
    using run_unblocked[where e = e and s = s and i = i and es = es and lo = lo, OF assms(1)]
      assms(8,9,10) by auto
  have s1: "s1 = trackSuspiciousActivity e ?s0 i tk"
    using assms(15) by (simp add: run_append)
  have l1: "locked s1 i (tk + d) tk"
    unfolding s1
    using track_reaches[where e = e and s = ?s0 and i = i and tk = tk and lo = lo,
        OF assms(1,2) before(1)] before(2) assms(11,7) by simp
  have l2: "locked s2 i (tk + d) tk"
    and answers: "\<forall>a \<in> set (fst (run e s1 os)). fst a = i \<longrightarrow> snd a"
    using run_locked[where e = e and s = s1 and i = i and u = "tk + d" and tk = tk and os = os]
      l1 assms(6,12,16) by auto
  have "lapsing s3 i (tk + d)"
    using run_lapsing[where e = e and s = s2 and i = i and u = "tk + d" and ws = ws]
      locked_lapsing[OF l2] assms(13,17) by simp
  from isBlocked_lapsed[OF this assms(14)] l1 answers show ?thesis by simp
qed

lemma four_tracks_window:
  "\<forall>ev \<in> set four_tracks. 0 \<le> clock ev \<and> clock ev \<le> 0 + day_ms"
  by (simp add: four_tracks_def day_ms_def)

lemma four_tracks_hits: "hits ''1.2.3.4'' four_tracks = 4"
  by (simp add: four_tracks_def hits_def)

theorem lockout_after_threshold_witness:
  "locked (snd (run env0 Map.empty (four_tracks @ [Track ''1.2.3.4'' 40]))) ''1.2.3.4'' 900040 40 \<and>
   fst (isBlocked (snd (run env0 (snd (run env0 (snd (run env0 Map.empty
           (four_tracks @ [Track ''1.2.3.4'' 40]))) while_blocked)) afterwards))
         ''1.2.3.4'' 90000002) = False"
proof -
  have c: "count_of (Map.empty :: abuse) ''1.2.3.4'' = 0" by (simp add: count_of_def)
  have safe: "safe 5" "safe 900000" "safe (count_of (Map.empty :: abuse) ''1.2.3.4'')"
    by (simp_all add: safe_def c)
  have d: "(900000::int) \<le> day_ms" by (simp add: day_ms_def)
  have v: "\<bar>(40::int) + 900000\<bar> \<le> 8640000000000000" by simp
  have u: "unblocked (Map.empty :: abuse) ''1.2.3.4'' 0" by (simp add: unblocked_def)
  have h1: "hits ''1.2.3.4'' four_tracks = 0 \<or>
      count_of (Map.empty :: abuse) ''1.2.3.4'' + int (hits ''1.2.3.4'' four_tracks) < 5"
    by (simp add: c four_tracks_hits)
  have h2: "(5::int) \<le> count_of (Map.empty :: abuse) ''1.2.3.4'' + int (hits ''1.2.3.4'' four_tracks) + 1"
    by (simp add: c four_tracks_hits)
  have os: "\<forall>ev \<in> set while_blocked. 40 \<le> clock ev \<and> clock ev \<le> 40 + 900000"
    by (simp add: while_blocked_def)
  have ws: "\<forall>ev \<in> set afterwards. \<not> is_track ''1.2.3.4'' ev \<and> \<not> is_check ''1.2.3.4'' ev"
    by (simp add: afterwards_def)
  have q: "(40::int) + 900000 < 90000002" by simp
  have tk: "(0::int) \<le> 40" "(40::int) \<le> 0 + day_ms" by (simp_all add: day_ms_def)
  from lockout_after_threshold[OF threshold_default lockoutDuration_default safe d v u
      four_tracks_window h1 h2 os ws q refl refl refl tk]
  show ?thesis by simp
qed

text \<open>
  With a lockout of 48 hours, five recordings at clock 0 block the identifier until
  clock 172800000; the sweep that fires 25 hours later removes the record, and
  \<open>isBlocked\<close> then returns false although \<open>blockUntil\<close> has not passed. With the default
  configuration, four recordings, a sweep 25 hours later and a fifth recording leave the
  identifier with a count of 1, not blocked.
\<close>

theorem lockout_swept_counterexample:
  "map_option blockUntil
     (snd (run env_48h Map.empty
             [Track ''i'' 0, Track ''i'' 0, Track ''i'' 0, Track ''i'' 0, Track ''i'' 0]) ''i'')
     = Some (Some (Num 172800000)) \<and>
   fst (run env_48h Map.empty
          [Track ''i'' 0, Track ''i'' 0, Track ''i'' 0, Track ''i'' 0, Track ''i'' 0,
           Check ''i'' 1, Sweep 90000000, Check ''i'' 90000001])
     = [(''i'', True), (''i'', False)] \<and>
   (90000001 :: int) \<le> 172800000 \<and>
   fst (run env0 Map.empty
          [Track ''i'' 0, Track ''i'' 10, Track ''i'' 20, Track ''i'' 30, Sweep 90000000,
           Track ''i'' 200000000, Check ''i'' 200000001])
     = [(''i'', False)]"
  by code_simp

section \<open>Token service\<close>

lemma env_k_secret: "truthy (JWT_SECRET env_k) = Some ''access-secret''"
  by (simp add: env_k_def env0_def)

lemma env_k_refresh_secret: "truthy (JWT_REFRESH_SECRET env_k) = Some ''refresh-secret''"
  by (simp add: env_k_def env0_def)

lemma env_k_ttl: "truthy (JWT_EXPIRES_IN env_k) = None"
  by (simp add: env_k_def env0_def)

lemma generate_with_secret:
  "truthy (JWT_SECRET e) = Some k \<Longrightarrow>
   generateAccessToken ts e user now =
     jwt_sign ts (payload_of user) k (or_default (JWT_EXPIRES_IN e) ''7d'') now"
  by (simp add: generateAccessToken_def)

lemma generate_without_secret:
  "truthy (JWT_SECRET e) = None \<Longrightarrow>
   generateAccessToken ts e user now = Inl (Error ''JWT_SECRET is not defined'')"
  by (simp add: generateAccessToken_def)

lemma jwt_sign_Inr:
  "jwt_sign ts p k ttl now = Inr tok \<longleftrightarrow>
   (\<exists>x. ts ttl (now div 1000) = Some x \<and>
      tok = Signed (p \<lparr> iat := Some (now div 1000), exp := Some x \<rparr>) k)"
  by (auto simp: jwt_sign_def Let_def split: option.splits)

lemma jwt_sign_isl: "isl (jwt_sign ts p k ttl now) \<longleftrightarrow> ts ttl (now div 1000) = None"
  by (simp add: jwt_sign_def Let_def split: option.splits)

lemma default_ttl: "truthy (JWT_EXPIRES_IN e) = None \<Longrightarrow> or_default (JWT_EXPIRES_IN e) ''7d'' = ''7d''"
  by (cases "JWT_EXPIRES_IN e") (auto split: if_splits)

text \<open>
  Claim C2, as the code has it. The expiry of an access token is what the signing library
  reads from the configured span \<open>JWT_EXPIRES_IN\<close> at the issue time; when that variable
  is unset or empty the span handed to the library is \<open>7d\<close>, seven days. The call fails
  exactly when \<open>JWT_SECRET\<close> is unset or empty, or the span string is not a timespan the
  signing library accepts.
\<close>

theorem access_token_expiry:
  "(isl (generateAccessToken ts e user now) \<longleftrightarrow>
      truthy (JWT_SECRET e) = None \<or>
      ts (or_default (JWT_EXPIRES_IN e) ''7d'') (now div 1000) = None) \<and>
   (\<forall>tok. generateAccessToken ts e user now = Inr tok \<longrightarrow>
      (\<exists>p k x. tok = Signed p k \<and>
         ts (or_default (JWT_EXPIRES_IN e) ''7d'') (now div 1000) = Some x \<and>
         iat p = Some (now div 1000) \<and> exp p = Some x)) \<and>
   (truthy (JWT_EXPIRES_IN e) = None \<longrightarrow> or_default (JWT_EXPIRES_IN e) ''7d'' = ''7d'')"
proof (cases "truthy (JWT_SECRET e)")
  case None
  then show ?thesis
    by (simp add: generate_without_secret default_ttl)
next
  case (Some k)
  have "\<forall>tok. generateAccessToken ts e user now = Inr tok \<longrightarrow>
      (\<exists>p k x. tok = Signed p k \<and>
         ts (or_default (JWT_EXPIRES_IN e) ''7d'') (now div 1000) = Some x \<and>
         iat p = Some (now div 1000) \<and> exp p = Some x)"
    by (auto simp: generate_with_secret[OF Some] jwt_sign_Inr)
  then show ?thesis
    by (simp add: generate_with_secret[OF Some] jwt_sign_isl Some default_ttl)
qed

theorem access_token_expiry_witness:
  "\<exists>p k. generateAccessToken spans0 env_k alice 1000 = Inr (Signed p k) \<and> exp p = Some 604801"
proof -
  note T = access_token_expiry[of spans0 env_k alice 1000]
  from T env_k_ttl have m: "or_default (JWT_EXPIRES_IN env_k) ''7d'' = ''7d''"
    by simp
  have x: "spans0 ''7d'' (1000 div 1000) = Some 604801" by (simp add: spans0_def)
  from T m x env_k_secret have "\<not> isl (generateAccessToken spans0 env_k alice 1000)"
    by simp
  then obtain tok where tok: "generateAccessToken spans0 env_k alice 1000 = Inr tok"
    by (cases "generateAccessToken spans0 env_k alice 1000") auto
  with T obtain p k y where "tok = Signed p k"
    "spans0 (or_default (JWT_EXPIRES_IN env_k) ''7d'') (1000 div 1000) = Some y"
    "exp p = Some y"
    by blast
  with m x tok show ?thesis by simp
qed

text \<open>
  With a secret and no \<open>JWT_EXPIRES_IN\<close> the span handed to the library is \<open>7d\<close>, so the
  token issued at second 0 expires at second 604800 (seven days), not at second 900; and
  with a secret configured the call still fails on a span string the library rejects.
\<close>

theorem access_token_default_ttl_counterexample:
  "or_default (JWT_EXPIRES_IN env_k) ''7d'' = ''7d'' \<and>
   generateAccessToken spans0 env_k alice 0 =
     Inr (Signed ((payload_of alice) \<lparr> iat := Some 0, exp := Some 604800 \<rparr>) ''access-secret'') \<and>
   (604800 :: int) \<noteq> 15 * 60 \<and>
   truthy (JWT_SECRET (env_k \<lparr> JWT_EXPIRES_IN := Some ''soon'' \<rparr>)) = Some ''access-secret'' \<and>
   isl (generateAccessToken spans0 (env_k \<lparr> JWT_EXPIRES_IN := Some ''soon'' \<rparr>) alice 0)"
  by (simp add: generateAccessToken_def jwt_sign_def env_k_def env0_def spans0_def)

text \<open>
  Claim C3. A token that \<open>generateAccessToken\<close> produced for a user verifies, at any
  clock value before the expiry it carries and under the same environment, to a payload
  with that user's id, e-mail address and role.
\<close>

theorem access_token_roundtrip:
  assumes "generateAccessToken ts e user t0 = Inr tok"
    and "token_exp tok = Some ex"
    and "t1 div 1000 < ex"
  shows "\<exists>p. verifyAccessToken e tok t1 = Inr p \<and>
             userId p = uid user \<and> p_email p = email user \<and> p_role p = role_string (role user)"
proof (cases "truthy (JWT_SECRET e)")
  case None
  with assms(1) show ?thesis by (simp add: generate_without_secret)
next
  case (Some k)
  from assms(1) obtain x where
    tok: "tok = Signed ((payload_of user) \<lparr> iat := Some (t0 div 1000), exp := Some x \<rparr>) k"
    by (auto simp: generate_with_secret[OF Some] jwt_sign_Inr)
  with assms(2,3) show ?thesis
    by (simp add: verifyAccessToken_def Some jwt_verify_def payload_of_def)
qed

theorem access_token_roundtrip_witness:
  "\<exists>p. verifyAccessToken env_k (Signed ((payload_of alice) \<lparr> iat := Some 0, exp := Some 604800 \<rparr>)
                                  ''access-secret'') 604799999 = Inr p \<and>
       userId p = ''64a1f0'' \<and> p_email p = ''a@b.com'' \<and> p_role p = ''user''"
proof -
  have g: "generateAccessToken spans0 env_k alice 0 =
     Inr (Signed ((payload_of alice) \<lparr> iat := Some 0, exp := Some 604800 \<rparr>) ''access-secret'')"
    by (simp add: generateAccessToken_def jwt_sign_def env_k_def env0_def spans0_def)
  have x: "token_exp (Signed ((payload_of alice) \<lparr> iat := Some 0, exp := Some 604800 \<rparr>)
             ''access-secret'') = Some 604800"
    by simp
  have "(604799999 :: int) div 1000 < 604800" by simp
  from access_token_roundtrip[OF g x this] show ?thesis
    by (simp add: alice_def)
qed

text \<open>
  Claim C4, as the code has it. Both wrappers catch whatever the library throws and throw
  one fixed error instead: a token whose expiry has passed, a token signed with another
  key and a string that does not decode all give \<open>Error('Invalid access token')\<close> from
  \<open>verifyAccessToken\<close> and \<open>Error('Invalid refresh token')\<close> from \<open>verifyRefreshToken\<close>.
\<close>

theorem verify_failures_collapse:
  "(truthy (JWT_SECRET e) = Some k \<longrightarrow>
      (exp p = Some ex \<and> ex \<le> now div 1000 \<longrightarrow>
         verifyAccessToken e (Signed p k) now = Inl (Error ''Invalid access token'')) \<and>
      (k' \<noteq> k \<longrightarrow> verifyAccessToken e (Signed p k') now = Inl (Error ''Invalid access token'')) \<and>
      verifyAccessToken e (Malformed str) now = Inl (Error ''Invalid access token'')) \<and>
   (truthy (JWT_REFRESH_SECRET e) = Some r \<longrightarrow>
      (exp p = Some ex \<and> ex \<le> now div 1000 \<longrightarrow>
         verifyRefreshToken e (Signed p r) now = Inl (Error ''Invalid refresh token'')) \<and>
      (r' \<noteq> r \<longrightarrow> verifyRefreshToken e (Signed p r') now = Inl (Error ''Invalid refresh token'')) \<and>
      verifyRefreshToken e (Malformed str) now = Inl (Error ''Invalid refresh token''))"
  by (simp add: verifyAccessToken_def verifyRefreshToken_def jwt_verify_def)

theorem verify_failures_collapse_witness:
  "verifyAccessToken env_k (Signed ((payload_of alice) \<lparr> exp := Some 900 \<rparr>) ''access-secret'') 900000
     = Inl (Error ''Invalid access token'') \<and>
   verifyAccessToken env_k (Signed ((payload_of alice) \<lparr> exp := Some 900 \<rparr>) ''forged'') 900000
     = Inl (Error ''Invalid access token'') \<and>
   verifyRefreshToken env_k (Signed ((payload_of alice) \<lparr> exp := Some 900 \<rparr>) ''refresh-secret'') 900000
     = Inl (Error ''Invalid refresh token'') \<and>
   verifyRefreshToken env_k (Signed ((payload_of alice) \<lparr> exp := Some 900 \<rparr>) ''forged'') 900000
     = Inl (Error ''Invalid refresh token'')"
  using verify_failures_collapse[of env_k "''access-secret''" "(payload_of alice) \<lparr> exp := Some 900 \<rparr>"
          900 900000 "''forged''" "''x''" "''refresh-secret''" "''forged''"]
        env_k_secret env_k_refresh_secret
  by simp

text \<open>
  The library tells an expired token from a badly signed one, and the wrappers return the
  same error for both.
\<close>

theorem verify_error_kinds_counterexample:
  "jwt_verify (Signed ((payload_of alice) \<lparr> exp := Some 900 \<rparr>) ''access-secret'') ''access-secret'' 900000
     = Inl (TokenExpiredError ''jwt expired'') \<and>
   jwt_verify (Signed ((payload_of alice) \<lparr> exp := Some 900 \<rparr>) ''forged'') ''access-secret'' 0
     = Inl (JsonWebTokenError ''invalid signature'') \<and>
   verifyAccessToken env_k (Signed ((payload_of alice) \<lparr> exp := Some 900 \<rparr>) ''access-secret'') 900000
     = verifyAccessToken env_k (Signed ((payload_of alice) \<lparr> exp := Some 900 \<rparr>) ''forged'') 0 \<and>
   verifyRefreshToken env_k (Signed ((payload_of alice) \<lparr> exp := Some 900 \<rparr>) ''refresh-secret'') 900000
     = verifyRefreshToken env_k (Signed ((payload_of alice) \<lparr> exp := Some 900 \<rparr>) ''forged'') 0"
  by (simp add: verifyAccessToken_def verifyRefreshToken_def jwt_verify_def env_k_def env0_def)

section \<open>OAuth linker\<close>

lemma findOne_save:
  "findOne us em = Some user \<Longrightarrow> uid u = uid user \<Longrightarrow> email u = em \<Longrightarrow>
   findOne (save us u) em = Some u"
proof (induction us)
  case Nil
  then show ?case by (simp add: findOne_def)
next
  case (Cons v vs)
  show ?case
  proof (cases "email v = em")
    case True
    with Cons.prems show ?thesis by (simp add: findOne_def save_def)
  next
    case False
    with Cons.prems have "findOne vs em = Some user" by (simp add: findOne_def)
    from Cons.IH[OF this Cons.prems(2,3)] False Cons.prems(3) show ?thesis
      by (simp add: findOne_def save_def)
  qed
qed

lemma findOne_email: "findOne us em = Some user \<Longrightarrow> email user = em"
  by (induction us) (auto simp: findOne_def split: if_splits)

text \<open>
  Claim C5, as the code has it. When the profile's e-mail address resolves to an existing
  user, the linking step stores the id of the incoming profile for that provider, whether
  or not an id was stored before, and leaves the other provider's id as it was; the
  document found under the address afterwards is the updated one.
\<close>

theorem oauth_link_sets_provider_id:
  assumes "first_value (emails p) = Some em" and "findOne us em = Some user"
  shows "(\<exists>u. googleVerify us newid p = (Inr u, save us u) \<and> findOne (save us u) em = Some u \<and>
              google (socialAccounts u) = Some (profile_id p) \<and>
              github (socialAccounts u) = github (socialAccounts user)) \<and>
         (\<exists>u. githubVerify us newid p = (Inr u, save us u) \<and> findOne (save us u) em = Some u \<and>
              github (socialAccounts u) = Some (profile_id p) \<and>
              google (socialAccounts u) = google (socialAccounts user))"
proof -
  have em: "email user = em" using assms(2) by (rule findOne_email)
  let ?g = "user \<lparr> socialAccounts := (socialAccounts user) \<lparr> google := Some (profile_id p) \<rparr> \<rparr>"
  let ?gu = "if truthy (avatar ?g) = None \<and> first_value (photos p) \<noteq> None
             then ?g \<lparr> avatar := first_value (photos p) \<rparr> else ?g"
  let ?h = "user \<lparr> socialAccounts := (socialAccounts user) \<lparr> github := Some (profile_id p) \<rparr> \<rparr>"
  let ?hu = "if truthy (avatar ?h) = None \<and> first_value (photos p) \<noteq> None
             then ?h \<lparr> avatar := first_value (photos p) \<rparr> else ?h"
  have g: "googleVerify us newid p = (Inr ?gu, save us ?gu)"
    using assms by (simp add: googleVerify_def Let_def)
  have h: "githubVerify us newid p = (Inr ?hu, save us ?hu)"
    using assms by (simp add: githubVerify_def Let_def)
  have fg: "findOne (save us ?gu) em = Some ?gu"
    using assms(2) em by (intro findOne_save[where user = user]) auto
  have fh: "findOne (save us ?hu) em = Some ?hu"
    using assms(2) em by (intro findOne_save[where user = user]) auto
  have pg: "google (socialAccounts ?gu) = Some (profile_id p) \<and>
            github (socialAccounts ?gu) = github (socialAccounts user)"
    by simp
  have ph: "github (socialAccounts ?hu) = Some (profile_id p) \<and>
            google (socialAccounts ?hu) = google (socialAccounts user)"
    by simp
  show ?thesis
  proof (rule conjI)
    from g fg pg show "\<exists>u. googleVerify us newid p = (Inr u, save us u) \<and>
        findOne (save us u) em = Some u \<and> google (socialAccounts u) = Some (profile_id p) \<and>
        github (socialAccounts u) = github (socialAccounts user)"
      by blast
    from h fh ph show "\<exists>u. githubVerify us newid p = (Inr u, save us u) \<and>
        findOne (save us u) em = Some u \<and> github (socialAccounts u) = Some (profile_id p) \<and>
        google (socialAccounts u) = google (socialAccounts user)"
      by blast
  qed
qed

theorem oauth_link_sets_provider_id_witness:
  "(\<exists>u. googleVerify [alice] ''n1'' google_profile = (Inr u, save [alice] u) \<and>
        google (socialAccounts u) = Some ''g-2'') \<and>
   (\<exists>u. githubVerify [alice] ''n1'' google_profile = (Inr u, save [alice] u) \<and>
        github (socialAccounts u) = Some ''g-2'' \<and> google (socialAccounts u) = Some ''g-1'')"
proof -
  have a: "first_value (emails google_profile) = Some ''a@b.com''"
    by (simp add: first_value_def google_profile_def)
  have b: "findOne [alice] ''a@b.com'' = Some alice"
    by (simp add: findOne_def alice_def)
  from oauth_link_sets_provider_id[OF a b, of "''n1''"] show ?thesis
    by (auto simp: google_profile_def alice_def)
qed

text \<open>
  A user linked to the Google id \<open>g-1\<close> signs in with a profile of the same address and
  the id \<open>g-2\<close>: the stored id becomes \<open>g-2\<close>.
\<close>

theorem oauth_link_first_writer_counterexample:
  "map_option socialAccounts (findOne [alice] ''a@b.com'')
     = Some \<lparr> google = Some ''g-1'', github = None \<rparr> \<and>
   map_option socialAccounts (findOne (snd (googleVerify [alice] ''n1'' google_profile)) ''a@b.com'')
     = Some \<lparr> google = Some ''g-2'', github = None \<rparr>"
  by (simp add: googleVerify_def first_value_def findOne_def save_def alice_def google_profile_def
      Let_def)

text \<open>
  Claim C6 at a failing input. A user who registered with a password and has not verified
  the address signs in through Google, and then through GitHub, with a profile of the same
  address: the saved document still has \<open>isEmailVerified = false\<close>.
\<close>

theorem oauth_link_keeps_unverified:
  "map_option isEmailVerified (findOne [alice] ''a@b.com'') = Some False \<and>
   map_option isEmailVerified
     (findOne (snd (googleVerify [alice] ''n1'' google_profile)) ''a@b.com'') = Some False \<and>
   map_option isEmailVerified
     (findOne (snd (githubVerify [alice] ''n1'' github_profile)) ''a@b.com'') = Some False"
  by (simp add: googleVerify_def githubVerify_def first_value_def findOne_def save_def alice_def
      google_profile_def github_profile_def Let_def)

section \<open>Handlers\<close>

lemma invalid_credentials_response:
  "errorHandler (AppError ''Invalid email or password'' 401) =
     \<lparr> status = 401, success = False, message = ''Invalid email or password'',
       retryAfter = None, data = None \<rparr>"
  by (simp add: errorHandler_def)

lemma send_failure_response:
  "errorHandler (AppError ''Email could not be sent'' 500) =
     \<lparr> status = 500, success = False, message = ''Email could not be sent'',
       retryAfter = None, data = None \<rparr>"
  by (simp add: errorHandler_def)

lemma login_credentials_fail:
  "credentials_fail us cmp r \<Longrightarrow>
   login ts e cmp fp us s r t =
     login_failed e s (trim (toLowerCase (body_email r))) (or_default (req_ip r) ''unknown'') t"
  by (auto simp: login_def credentials_fail_def Let_def split: option.splits)

text \<open>
  Claim C7 at a failing input. For an address without an account the handler answers 200
  with the generic message; for an existing account whose reset mail cannot be sent it
  answers 500 with \<open>Email could not be sent\<close>.
\<close>

theorem forgot_password_send_failure:
  "fst (forgotPassword id ''raw-token'' False [alice] ''nobody@b.com'' 0) = generic_reset_response \<and>
   status generic_reset_response = 200 \<and>
   findOne [alice] (toLowerCase ''a@b.com'') = Some alice \<and>
   fst (forgotPassword id ''raw-token'' False [alice] ''a@b.com'' 0) =
     \<lparr> status = 500, success = False, message = ''Email could not be sent'',
       retryAfter = None, data = None \<rparr>"
proof -
  have n1: "toLowerCase ''nobody@b.com'' = ''nobody@b.com''" by code_simp
  have n2: "toLowerCase ''a@b.com'' = ''a@b.com''" by code_simp
  have f1: "findOne [alice] ''nobody@b.com'' = None" by (simp add: findOne_def alice_def)
  have f2: "findOne [alice] ''a@b.com'' = Some alice" by (simp add: findOne_def alice_def)
  show ?thesis
    by (simp add: forgotPassword_def n1 n2 f1 f2 generic_reset_response_def
        send_failure_response Let_def)
qed

text \<open>
  Claim C9. A login request whose address matches no user and a login request whose
  address matches a user but whose password is wrong get the same response, whatever the
  abuse map and the clock are: status 401 with the message \<open>Invalid email or password\<close>.
\<close>

theorem login_failure_indistinguishable:
  assumes "findOne us (trim (toLowerCase (body_email r1))) = None"
    and "findOne us (trim (toLowerCase (body_email r2))) = Some u"
    and "cmp u (body_password r2) = Some False"
  shows "fst (login ts e cmp fp us s1 r1 t1) = fst (login ts e cmp fp us s2 r2 t2) \<and>
         fst (login ts e cmp fp us s1 r1 t1) =
           \<lparr> status = 401, success = False, message = ''Invalid email or password'',
             retryAfter = None, data = None \<rparr>"
proof -
  have "credentials_fail us cmp r1" using assms(1) by (simp add: credentials_fail_def)
  then have a: "fst (login ts e cmp fp us s1 r1 t1) = errorHandler (AppError ''Invalid email or password'' 401)"
    by (simp add: login_credentials_fail login_failed_def Let_def)
  have "credentials_fail us cmp r2" using assms(2,3) by (simp add: credentials_fail_def)
  then have b: "fst (login ts e cmp fp us s2 r2 t2) = errorHandler (AppError ''Invalid email or password'' 401)"
    by (simp add: login_credentials_fail login_failed_def Let_def)
  from a b show ?thesis by (simp add: invalid_credentials_response)
qed

theorem login_failure_indistinguishable_witness:
  "fst (login spans0 env_k never_match ''fp'' [alice] Map.empty (attempt ''nobody@b.com'') 0) =
   fst (login spans0 env_k never_match ''fp'' [alice] Map.empty (attempt '' A@B.com '') 7) \<and>
   fst (login spans0 env_k never_match ''fp'' [alice] Map.empty (attempt ''nobody@b.com'') 0) =
     \<lparr> status = 401, success = False, message = ''Invalid email or password'',
       retryAfter = None, data = None \<rparr>"
proof -
  have n1: "trim (toLowerCase ''nobody@b.com'') = ''nobody@b.com''" by code_simp
  have n2: "trim (toLowerCase '' A@B.com '') = ''a@b.com''" by code_simp
  have a: "findOne [alice] (trim (toLowerCase (body_email (attempt ''nobody@b.com'')))) = None"
    by (simp add: attempt_def n1) (simp add: findOne_def alice_def)
  have b: "findOne [alice] (trim (toLowerCase (body_email (attempt '' A@B.com '')))) = Some alice"
    by (simp add: attempt_def n2) (simp add: findOne_def alice_def)
  have c: "never_match alice (body_password (attempt '' A@B.com '')) = Some False"
    by (simp add: never_match_def)
  from login_failure_indistinguishable[where cmp = never_match and us = "[alice]"
      and ?r1.0 = "attempt ''nobody@b.com''" and ?r2.0 = "attempt '' A@B.com ''" and u = alice
      and ts = spans0 and e = env_k and fp = "''fp''" and ?s1.0 = Map.empty and ?t1.0 = 0
      and ?s2.0 = Map.empty and ?t2.0 = 7, OF a b c]
  show ?thesis .
qed

section \<open>Failed logins and the address record\<close>

lemma starts_with_append: "starts_with p (p @ x)"
  by (induction p) simp_all

lemma email_key_neq: "\<not> starts_with ''email:'' k \<Longrightarrow> email_key r \<noteq> k"
  using starts_with_append[of "''email:''" "trim (toLowerCase (body_email r))"]
  by (auto simp: email_key_def)

lemma count_of_track_same: "count_of (trackSuspiciousActivity e s i t) i = count_of s i + 1"
  by (simp add: count_of_def trackSuspiciousActivity_def Let_def split: option.splits)

lemma count_of_track_other: "j \<noteq> i \<Longrightarrow> count_of (trackSuspiciousActivity e s j t) i = count_of s i"
  by (simp add: count_of_def track_other)

lemma login_state:
  "snd (login ts e cmp fp us s r t) = snd (run e s (recordings us cmp (LoginAt r t)))"
proof (cases "credentials_fail us cmp r")
  case True
  then show ?thesis
    by (simp add: login_credentials_fail login_failed_def email_key_def address_key_def Let_def)
next
  case False
  then show ?thesis
    by (auto simp: login_def credentials_fail_def Let_def split: option.splits bool.splits sum.splits)
qed

lemma serve_run:
  "snd (serve ts e cmp fp us s hs) = snd (run e s (concat (map (recordings us cmp) hs)))"
proof (induction hs arbitrary: s)
  case Nil
  then show ?case by simp
next
  case (Cons h hs)
  show ?case
  proof (cases h)
    case (LoginAt r t)
    have "snd (serve ts e cmp fp us s (h # hs)) =
        snd (serve ts e cmp fp us (snd (login ts e cmp fp us s r t)) hs)"
      using LoginAt by simp
    also have "\<dots> = snd (run e (snd (run e s (recordings us cmp h)))
                           (concat (map (recordings us cmp) hs)))"
      using LoginAt by (simp only: Cons.IH login_state)
    finally show ?thesis by (simp add: run_append)
  next
    case (SweepAt t)
    then show ?thesis by (simp add: Cons.IH)
  qed
qed

lemma hits_recordings:
  "\<not> starts_with ''email:'' k \<Longrightarrow>
   hits k (concat (map (recordings us cmp) hs)) = failures k us cmp hs"
proof (induction hs)
  case Nil
  then show ?case by (simp add: hits_def failures_def)
next
  case (Cons h hs)
  then have ih: "hits k (concat (map (recordings us cmp) hs)) = failures k us cmp hs"
    by simp
  show ?case
  proof (cases h)
    case (LoginAt r t)
    have "email_key r \<noteq> k" using Cons.prems by (rule email_key_neq)
    with LoginAt ih show ?thesis by (auto simp: hits_def failures_def)
  next
    case (SweepAt t)
    with ih show ?thesis by (simp add: hits_def failures_def)
  qed
qed

lemma clocks_recordings:
  "\<forall>h \<in> set hs. lo \<le> http_clock h \<and> http_clock h \<le> hi \<Longrightarrow>
   \<forall>ev \<in> set (concat (map (recordings us cmp) hs)). lo \<le> clock ev \<and> clock ev \<le> hi"
proof (induction hs)
  case Nil
  then show ?case by simp
next
  case (Cons h hs)
  then show ?case by (cases h) auto
qed

lemma checkBlocked_address:
  "isBlocked s k now = (True, s') \<Longrightarrow> or_default (ip req) ''unknown'' = k \<Longrightarrow>
   \<exists>resp. checkBlocked s req now = (Some resp, s') \<and> status resp = 429"
  by (simp add: checkBlocked_def Let_def)

text \<open>
  Claim C10, as the code has it. Every login whose credential check fails adds one to the
  count of the record keyed \<open>email:\<close> followed by the normalized address and one to the
  count of the record keyed by the caller's address (\<open>req.ip\<close>, or \<open>unknown\<close>), whatever
  the map was before. Take an address that has no record, or a record that is not blocked,
  and a run of logins and sweeps whose clock values lie within one window of 24 hours that
  starts no later than the record's last attempt. Let the failed login at clock \<open>tk\<close>,
  within that window, be the one with which the address count reaches the threshold, on whatever e-mail
  addresses the failed logins were, and let the lockout duration \<open>d\<close> be at most 24 hours
  with \<open>tk + d\<close> a valid date. Then, after any further logins and sweeps with clock values
  from \<open>tk\<close> to \<open>tk + d\<close>, \<open>isBlocked\<close> is true for the address at every clock value up to
  \<open>tk + d\<close>, and \<open>checkBlocked\<close> answers 429 to a request from it whatever e-mail
  address the request names.
\<close>

theorem failed_logins_block_address:
  assumes "threshold e = Num th" and "lockoutDuration e = Num d"
    and "safe th" and "safe d" and "safe (count_of s k)"
    and "d \<le> day_ms" and "\<bar>tk + d\<bar> \<le> 8640000000000000"
    and "\<not> starts_with ''email:'' k"
    and "unblocked s k lo"
    and "\<forall>h \<in> set hs. lo \<le> http_clock h \<and> http_clock h \<le> lo + day_ms"
    and "failures k us cmp hs = 0 \<or> count_of s k + int (failures k us cmp hs) < th"
    and "th \<le> count_of s k + int (failures k us cmp hs) + 1"
    and "address_key rk = k" and "credentials_fail us cmp rk"
    and "\<forall>h \<in> set ws. tk \<le> http_clock h \<and> http_clock h \<le> tk + d"
    and "now \<le> tk + d"
    and "or_default (ip req) ''unknown'' = k"
    and "s' = snd (serve ts e cmp fp us s (hs @ [LoginAt rk tk] @ ws))"
    and "lo \<le> tk" and "tk \<le> lo + day_ms"
  shows "(\<forall>r s0 t. address_key r = k \<and> credentials_fail us cmp r \<longrightarrow>
            count_of (snd (login ts e cmp fp us s0 r t)) (email_key r)
              = count_of s0 (email_key r) + 1 \<and>
            count_of (snd (login ts e cmp fp us s0 r t)) k = count_of s0 k + 1) \<and>
         fst (isBlocked s' k now) \<and>
         (\<exists>resp. checkBlocked s' req now = (Some resp, s') \<and> status resp = 429)"
proof -
  have counts: "\<forall>r s0 t. address_key r = k \<and> credentials_fail us cmp r \<longrightarrow>
            count_of (snd (login ts e cmp fp us s0 r t)) (email_key r)
              = count_of s0 (email_key r) + 1 \<and>
            count_of (snd (login ts e cmp fp us s0 r t)) k = count_of s0 k + 1"
  proof (intro allI impI)
    fix r s0 t assume r: "address_key r = k \<and> credentials_fail us cmp r"
    have ne: "email_key r \<noteq> k" using assms(8) by (rule email_key_neq)
    have st: "snd (login ts e cmp fp us s0 r t) =
        trackSuspiciousActivity e (trackSuspiciousActivity e s0 (email_key r) t) k t"
      using r by (simp add: login_state)
    show "count_of (snd (login ts e cmp fp us s0 r t)) (email_key r)
              = count_of s0 (email_key r) + 1 \<and>
          count_of (snd (login ts e cmp fp us s0 r t)) k = count_of s0 k + 1"
      unfolding st using ne
      by (simp add: count_of_track_other count_of_track_same)
  qed
  let ?es = "concat (map (recordings us cmp) hs)"
  let ?os = "concat (map (recordings us cmp) ws)"
  let ?s0 = "snd (run e s ?es)"
  have hits: "hits k ?es = failures k us cmp hs"
    using assms(8) by (rule hits_recordings)
  have before: "unblocked ?s0 k lo" "count_of ?s0 k = count_of s k + int (hits k ?es)"
    using run_unblocked[where e = e and s = s and i = k and es = ?es and lo = lo, OF assms(1)]
      assms(9) clocks_recordings[OF assms(10)] assms(11) hits by auto
  let ?s1 = "trackSuspiciousActivity e ?s0 (email_key rk) tk"
  have ne: "email_key rk \<noteq> k" using assms(8) by (rule email_key_neq)
  have mid: "unblocked ?s1 k lo" "count_of ?s1 k = count_of ?s0 k"
    using before(1) ne by (simp_all add: unblocked_def count_of_def track_other)
  let ?s2 = "trackSuspiciousActivity e ?s1 k tk"
  have l2: "locked ?s2 k (tk + d) tk"
    using track_reaches[where e = e and s = ?s1 and i = k and tk = tk and lo = lo,
        OF assms(1,2) mid(1)] mid(2) before(2) hits assms(12,7) by simp
  have s': "s' = snd (run e ?s2 ?os)"
    using assms(13,14,18) by (simp add: serve_run run_append)
  have "locked s' k (tk + d) tk"
    unfolding s'
    using run_locked[where e = e and s = ?s2 and i = k and u = "tk + d" and tk = tk and os = ?os]
      l2 assms(6) clocks_recordings[OF assms(15)] by simp
  then have blk: "isBlocked s' k now = (True, s')"
    using assms(16) by (rule isBlocked_locked)
  from checkBlocked_address[OF blk assms(17)] blk counts show ?thesis
    by simp
qed

lemma four_logins_window:
  "\<forall>h \<in> set four_logins. 0 \<le> http_clock h \<and> http_clock h \<le> 0 + day_ms"
  by (simp add: four_logins_def day_ms_def)

lemma attempt_fails: "address_key (attempt em) = ''1.2.3.4'' \<and> credentials_fail [] never_match (attempt em)"
  by (simp add: address_key_def attempt_def credentials_fail_def findOne_def)

lemma four_logins_failures: "failures ''1.2.3.4'' [] never_match four_logins = 4"
  by (simp add: failures_def four_logins_def attempt_fails)

theorem failed_logins_block_address_witness:
  "fst (isBlocked (snd (serve spans0 env0 never_match ''fp'' [] Map.empty
                          (four_logins @ [LoginAt (attempt ''i@j.com'') 4] @ later_logins)))
         ''1.2.3.4'' 900003) \<and>
   (\<exists>resp. checkBlocked (snd (serve spans0 env0 never_match ''fp'' [] Map.empty
                                 (four_logins @ [LoginAt (attempt ''i@j.com'') 4] @ later_logins)))
              request0 900003
            = (Some resp, snd (serve spans0 env0 never_match ''fp'' [] Map.empty
                                 (four_logins @ [LoginAt (attempt ''i@j.com'') 4] @ later_logins))) \<and>
          status resp = 429)"
proof -
  have c: "count_of (Map.empty :: abuse) ''1.2.3.4'' = 0" by (simp add: count_of_def)
  have safe: "safe 5" "safe 900000" "safe (count_of (Map.empty :: abuse) ''1.2.3.4'')"
    by (simp_all add: safe_def c)
  have d: "(900000::int) \<le> day_ms" by (simp add: day_ms_def)
  have v: "\<bar>(4::int) + 900000\<bar> \<le> 8640000000000000" by simp
  have k: "\<not> starts_with ''email:'' ''1.2.3.4''" by simp
  have u: "unblocked (Map.empty :: abuse) ''1.2.3.4'' 0" by (simp add: unblocked_def)
  have h1: "failures ''1.2.3.4'' [] never_match four_logins = 0 \<or>
      count_of (Map.empty :: abuse) ''1.2.3.4'' + int (failures ''1.2.3.4'' [] never_match four_logins) < 5"
    by (simp add: c four_logins_failures)
  have h2: "(5::int) \<le> count_of (Map.empty :: abuse) ''1.2.3.4''
      + int (failures ''1.2.3.4'' [] never_match four_logins) + 1"
    by (simp add: c four_logins_failures)
  have a: "address_key (attempt ''i@j.com'') = ''1.2.3.4''"
    and f: "credentials_fail [] never_match (attempt ''i@j.com'')"
    using attempt_fails by simp_all
  have ws: "\<forall>h \<in> set later_logins. 4 \<le> http_clock h \<and> http_clock h \<le> 4 + 900000"
    by (simp add: later_logins_def)
  have now: "(900003::int) \<le> 4 + 900000" by simp
  have req: "or_default (ip request0) ''unknown'' = ''1.2.3.4''" by (simp add: request0_def)
  have tk: "(0::int) \<le> 4" "(4::int) \<le> 0 + day_ms" by (simp_all add: day_ms_def)
  from failed_logins_block_address[where ts = spans0 and fp = "''fp''" and req = request0,
      OF threshold_default lockoutDuration_default safe d v k u four_logins_window h1 h2 a f
         ws now req refl tk]
  show ?thesis by simp
qed


subsection \<open>One identifier's record in a run\<close>

lemma track_key:
  "s k = s' k \<Longrightarrow> trackSuspiciousActivity e s k t k = trackSuspiciousActivity e s' k t k"
  by (simp add: trackSuspiciousActivity_def Let_def)

lemma isBlocked_key: "s k = s' k \<Longrightarrow> fst (isBlocked s k q) = fst (isBlocked s' k q)"
  by (simp add: isBlocked_def split: option.splits)

lemma isBlocked_key_snd: "s k = s' k \<Longrightarrow> snd (isBlocked s k q) k = snd (isBlocked s' k q) k"
  by (simp add: isBlocked_def split: option.splits)

lemma sweep_key: "s k = s' k \<Longrightarrow> sweep s t k = sweep s' t k"
  by (simp add: sweep_def)

lemma step_key:
  assumes "s k = s' k"
  shows "snd (step e s ev) k = (if touches k ev then snd (step e s' ev) k else s' k)"
proof (cases ev)
  case (Track j t)
  show ?thesis
  proof (cases "j = k")
    case True
    with Track track_key[where s = s and s' = s' and k = k and e = e and t = t] assms
    show ?thesis by simp
  next
    case False
    with Track assms show ?thesis by (simp add: track_other)
  qed
next
  case (Check j t)
  show ?thesis
  proof (cases "j = k")
    case True
    with Check isBlocked_key_snd[where s = s and s' = s' and k = k and q = t] assms
    show ?thesis by simp
  next
    case False
    with Check assms show ?thesis by (simp add: isBlocked_other)
  qed
next
  case (Sweep t)
  with sweep_key[where s = s and s' = s' and k = k and t = t] assms show ?thesis by simp
qed

lemma run_key:
  "s k = s' k \<Longrightarrow> snd (run e s evs) k = snd (run e s' (filter (touches k) evs)) k"
proof (induction evs arbitrary: s s')
  case Nil
  then show ?case by simp
next
  case (Cons ev evs)
  show ?case
  proof (cases "touches k ev")
    case True
    have "snd (step e s ev) k = snd (step e s' ev) k"
      using step_key[where s = s and s' = s' and k = k and e = e and ev = ev] Cons.prems True
      by simp
    from Cons.IH[where s = "snd (step e s ev)" and s' = "snd (step e s' ev)", OF this] True
    show ?thesis by simp
  next
    case False
    have "snd (step e s ev) k = s' k"
      using step_key[where s = s and s' = s' and k = k and e = e and ev = ev] Cons.prems False
      by simp
    from Cons.IH[where s = "snd (step e s ev)" and s' = s', OF this] False
    show ?thesis by simp
  qed
qed

lemma serve_key:
  "fst (isBlocked (snd (serve ts e cmp fp us s hs)) k q) =
   fst (isBlocked (snd (run e s (filter (touches k) (concat (map (recordings us cmp) hs))))) k q)"
proof -
  have "snd (serve ts e cmp fp us s hs) k =
        snd (run e s (filter (touches k) (concat (map (recordings us cmp) hs)))) k"
    using run_key[where s = s and s' = s and k = k and e = e
        and evs = "concat (map (recordings us cmp) hs)"]
    by (simp add: serve_run)
  then show ?thesis by (rule isBlocked_key)
qed

text \<open>
  Five failed logins from one address with a sweep and a gap of more than a day before the
  fifth: the sweep has removed the address record, the fifth failure starts a new one with
  count 1, and the address is not blocked. Ten failed logins from one address, five of
  them after the first block has run out and with no \<open>isBlocked\<close> call in between: the
  record keeps the old \<open>blockUntil\<close>, and the address is not blocked.
\<close>

theorem failed_logins_not_blocked_counterexample:
  "failures ''1.2.3.4'' [] never_match
     (four_logins @ [SweepAt 90000000, LoginAt (attempt ''i@j.com'') 200000000]) = 5 \<and>
   fst (isBlocked (snd (serve spans0 env0 never_match ''fp'' [] Map.empty
                          (four_logins @ [SweepAt 90000000, LoginAt (attempt ''i@j.com'') 200000000])))
         ''1.2.3.4'' 200000001) = False \<and>
   failures ''1.2.3.4'' [] never_match ten_logins = 10 \<and>
   fst (isBlocked (snd (serve spans0 env0 never_match ''fp'' [] Map.empty ten_logins))
         ''1.2.3.4'' 1000005) = False"
proof -
  let ?first = "[Track ''1.2.3.4'' 0, Track ''1.2.3.4'' 1, Track ''1.2.3.4'' 2,
                 Track ''1.2.3.4'' 3, Track ''1.2.3.4'' 4]"
  let ?second = "[Track ''1.2.3.4'' 1000000, Track ''1.2.3.4'' 1000001, Track ''1.2.3.4'' 1000002,
                  Track ''1.2.3.4'' 1000003, Track ''1.2.3.4'' 1000004]"
  let ?blocked = "(Map.empty :: abuse)(''1.2.3.4'' \<mapsto>
      \<lparr> count = 5, lastAttempt = 4, blocked = True, blockUntil = Some (Num 900004) \<rparr>)"
  have k: "\<And>r. email_key r \<noteq> ''1.2.3.4''"
    by (rule email_key_neq) simp
  have gap: "filter (touches ''1.2.3.4'') (concat (map (recordings [] never_match)
        (four_logins @ [SweepAt 90000000, LoginAt (attempt ''i@j.com'') 200000000]))) =
      [Track ''1.2.3.4'' 0, Track ''1.2.3.4'' 1, Sweep 2, Track ''1.2.3.4'' 2, Track ''1.2.3.4'' 3,
       Sweep 90000000, Track ''1.2.3.4'' 200000000]"
    by (simp add: four_logins_def attempt_fails k)
  have stale: "filter (touches ''1.2.3.4'') (concat (map (recordings [] never_match) ten_logins)) =
      ?first @ ?second"
    by (simp add: ten_logins_def attempt_fails k)
  have g: "fst (isBlocked (snd (run env0 Map.empty
      [Track ''1.2.3.4'' 0, Track ''1.2.3.4'' 1, Sweep 2, Track ''1.2.3.4'' 2, Track ''1.2.3.4'' 3,
       Sweep 90000000, Track ''1.2.3.4'' 200000000])) ''1.2.3.4'' 200000001) = False"
    by code_simp
  have first: "snd (run env0 Map.empty ?first) ''1.2.3.4'' = ?blocked ''1.2.3.4''"
    by code_simp
  have second: "fst (isBlocked (snd (run env0 ?blocked ?second)) ''1.2.3.4'' 1000005) = False"
    by code_simp
  have "snd (run env0 Map.empty (?first @ ?second)) ''1.2.3.4'' =
        snd (run env0 ?blocked (filter (touches ''1.2.3.4'') ?second)) ''1.2.3.4''"
    using run_key[where s = "snd (run env0 Map.empty ?first)" and s' = ?blocked
        and k = "''1.2.3.4''" and e = env0 and evs = ?second, OF first]
    by (simp only: run_append snd_conv)
  then have "snd (run env0 Map.empty (?first @ ?second)) ''1.2.3.4'' =
        snd (run env0 ?blocked ?second) ''1.2.3.4''"
    by simp
  then have s: "fst (isBlocked (snd (run env0 Map.empty (?first @ ?second))) ''1.2.3.4'' 1000005) = False"
    using isBlocked_key[where s = "snd (run env0 Map.empty (?first @ ?second))"
        and s' = "snd (run env0 ?blocked ?second)" and k = "''1.2.3.4''" and q = 1000005] second
    by simp
  have f1: "failures ''1.2.3.4'' [] never_match
     (four_logins @ [SweepAt 90000000, LoginAt (attempt ''i@j.com'') 200000000]) = 5"
    by (simp add: failures_def four_logins_def attempt_fails)
  have f2: "failures ''1.2.3.4'' [] never_match ten_logins = 10"
    by (simp add: failures_def ten_logins_def attempt_fails)
  show ?thesis
    by (simp only: serve_key gap stale g s f1 f2 simp_thms)
qed

section \<open>Input sanitizer\<close>

text \<open>
  Claim C8 at failing inputs. Removing \<open>$ne\<close> from \<open>$w$nehere\<close> leaves \<open>$where\<close>, which the
  earlier replacement of \<open>$where\<close> no longer sees; removing the handler attribute from
  \<open>oonclick=nclick=x\<close> leaves \<open>onclick=x\<close>; removing the inner script element from
  \<open><scr<script></script>ipt>\<close> leaves \<open><script>\<close>.
\<close>

theorem sanitize_rebuilds_patterns:
  "sanitizeInput (Some (JObject [(''q'', JString ''$w$nehere'')]),
                  Some (JObject [(''h'', JString ''oonclick=nclick=x''),
                                 (''t'', JArray [JString ''<scr<script></script>ipt>''])]))
   = (Some (JObject [(''q'', JString ''$where'')]),
      Some (JObject [(''h'', JString ''onclick=x''),
                     (''t'', JArray [JString ''<script>''])]))"
  by code_simp

end
